theory Spec2Isabelle
  imports Complex_Main "HOL-Library.Sublist"
begin

section \<open>Strings\<close>


fun join :: "string \<Rightarrow> string list \<Rightarrow> string" where
  "join sep [] = []"
| "join sep [x] = x"
| "join sep (x # y # ys) = x @ sep @ join sep (y # ys)"

section \<open>lib/settings.js: the model hierarchy\<close>




text \<open>
  A value that is a string, \<open>null\<close> or \<open>undefined\<close> is a \<^typ>\<open>string option\<close>;
  it is truthy when it is a non-empty string.
\<close>

fun truthy_str :: "string option \<Rightarrow> bool" where
  "truthy_str None = False"
| "truthy_str (Some s) = (s \<noteq> [])"


section \<open>agent-config.js: model validation at configuration time\<close>

text \<open>
  The fields of an agent definition that \<open>validateAgentConfig\<close> reads for its model
  configuration, and the two settings it loads.
\<close>

record model_rule =
  iterations :: string
  rule_model :: "string option"
  rule_modelLevel :: "string option"




definition VALID_LEVELS :: "string list" where
  "VALID_LEVELS = [''level1'', ''level2'', ''level3'']"







section \<open>JSON values\<close>

text \<open>
  A value parsed from JSON. An object is the list of its own properties in order. Numbers
  are integers here: the code below only tests whether a number is zero, or converts it to
  a property name that no number can equal.
\<close>

datatype json =
    JNull
  | JBool bool
  | JNum int
  | JString string
  | JArray "json list"
  | JObject "(string \<times> json) list"

text \<open>JavaScript truthiness of a JSON value, and of a value that may be \<open>undefined\<close>.\<close>

fun truthy :: "json \<Rightarrow> bool" where
  "truthy JNull = False"
| "truthy (JBool b) = b"
| "truthy (JNum n) = (n \<noteq> 0)"
| "truthy (JString s) = (s \<noteq> [])"
| "truthy (JArray xs) = True"
| "truthy (JObject kvs) = True"

fun truthy_opt :: "json option \<Rightarrow> bool" where
  "truthy_opt None = False"
| "truthy_opt (Some v) = truthy v"

text \<open>\<open>typeof v === 'object'\<close>: objects, arrays and \<open>null\<close>.\<close>

fun typeof_object :: "json \<Rightarrow> bool" where
  "typeof_object JNull = True"
| "typeof_object (JArray xs) = True"
| "typeof_object (JObject kvs) = True"
| "typeof_object v = False"

text \<open>The decimal numeral of a natural number: the property name of an array index.\<close>

definition digit_char :: "nat \<Rightarrow> char" where
  "digit_char d = char_of (48 + d)"

fun string_of_nat :: "nat \<Rightarrow> string" where
  "string_of_nat n =
     (if n < 10 then [digit_char n] else string_of_nat (n div 10) @ [digit_char (n mod 10)])"

declare string_of_nat.simps [simp del]

definition index_of_key :: "string \<Rightarrow> nat \<Rightarrow> nat option" where
  "index_of_key key n = find (\<lambda>i. string_of_nat i = key) [0..<n]"

text \<open>
  \<open>v[key]\<close> for an object or an array \<open>v\<close>, \<open>None\<close> for \<open>undefined\<close>. Only own
  properties that hold JSON values are read: the properties an object or an array inherits
  (\<open>constructor\<close>, \<open>toString\<close>, \<dots>) are functions, and \<open>length\<close> is a number; the code
  below leaves a property alone unless it holds a string, an object or an array.
\<close>

fun get_prop :: "json \<Rightarrow> string \<Rightarrow> json option" where
  "get_prop (JObject kvs) key = map_of kvs key"
| "get_prop (JArray xs) key =
     (case index_of_key key (length xs) of Some i \<Rightarrow> Some (xs ! i) | None \<Rightarrow> None)"
| "get_prop v key = None"

text \<open>\<open>v[key] = x\<close> where \<open>v[key]\<close> is an own property already: the property is overwritten
  in place.\<close>

fun overwrite :: "string \<Rightarrow> json \<Rightarrow> (string \<times> json) list \<Rightarrow> (string \<times> json) list" where
  "overwrite key x [] = []"
| "overwrite key x ((k, v) # kvs) =
     (if k = key then (k, x) # kvs else (k, v) # overwrite key x kvs)"

fun put_prop :: "json \<Rightarrow> string \<Rightarrow> json \<Rightarrow> json" where
  "put_prop (JObject kvs) key x = JObject (overwrite key x kvs)"
| "put_prop (JArray xs) key x =
     (case index_of_key key (length xs) of Some i \<Rightarrow> JArray (xs[i := x]) | None \<Rightarrow> JArray xs)"
| "put_prop v key x = v"

section \<open>String methods\<close>

text \<open>
  \<open>toUpperCase\<close>, \<open>toLowerCase\<close> and \<open>trim\<close> are methods of \<open>String.prototype\<close>:
  they are built into the language and their code is not among the sources. The functions
  below that call them take them as the parameter \<open>js\<close>, so that what is proved holds for
  whatever the three methods do on the strings of the model, under the laws stated in
  \<open>string_method_laws\<close>. A string whose form in upper or lower case needs a character
  that a \<^typ>\<open>char\<close> does not hold is outside the model.
\<close>

record string_methods =
  toUpperCase :: "string \<Rightarrow> string"
  toLowerCase :: "string \<Rightarrow> string"
  trim :: "string \<Rightarrow> string"

text \<open>
  The laws of \<open>toUpperCase\<close> and \<open>trim\<close> that the properties of enum normalization rest
  on. Upper-casing maps each character by itself, whatever surrounds it, and trimming
  removes white space from the two ends, so that: upper-casing twice is upper-casing once,
  and so is trimming; the two commute; upper-casing acts on each side of a \<open>|\<close>
  separately, and neither method makes a \<open>|\<close> appear; a string of the letters \<open>A\<close> to
  \<open>Z\<close> is left as it is by both.
\<close>

definition string_method_laws :: "string_methods \<Rightarrow> bool" where
  "string_method_laws js \<longleftrightarrow>
     (\<forall>s. toUpperCase js (toUpperCase js s) = toUpperCase js s)
   \<and> (\<forall>s. trim js (trim js s) = trim js s)
   \<and> (\<forall>s. trim js (toUpperCase js s) = toUpperCase js (trim js s))
   \<and> (\<forall>a b. toUpperCase js (a @ CHR ''|'' # b) = toUpperCase js a @ CHR ''|'' # toUpperCase js b)
   \<and> (\<forall>s. CHR ''|'' \<notin> set s \<longrightarrow> CHR ''|'' \<notin> set (toUpperCase js s))
   \<and> (\<forall>s. CHR ''|'' \<notin> set s \<longrightarrow> CHR ''|'' \<notin> set (trim js s))
   \<and> (\<forall>s. set s \<subseteq> set ''ABCDEFGHIJKLMNOPQRSTUVWXYZ'' \<longrightarrow> toUpperCase js s = s \<and> trim js s = s)"

text \<open>
  The three methods as they act on ASCII text: the letters \<open>a\<close> to \<open>z\<close> and \<open>A\<close> to
  \<open>Z\<close> change case, every other character is kept, and the white space removed is tab,
  line feed, vertical tab, form feed, carriage return and space. On strings of ASCII
  characters this is what the methods of the language do; the examples below are such
  strings and are evaluated with \<open>ascii_methods\<close>.
\<close>

definition ascii_upper_char :: "char \<Rightarrow> char" where
  "ascii_upper_char c =
     (let n = (of_char c :: nat) in if 97 \<le> n \<and> n \<le> 122 then char_of (n - 32) else c)"

definition ascii_lower_char :: "char \<Rightarrow> char" where
  "ascii_lower_char c =
     (let n = (of_char c :: nat) in if 65 \<le> n \<and> n \<le> 90 then char_of (n + 32) else c)"

definition is_space :: "char \<Rightarrow> bool" where
  "is_space c = (c \<in> set [CHR 0x09, CHR 0x0A, CHR 0x0B, CHR 0x0C, CHR 0x0D, CHR 0x20])"

definition ascii_trim :: "string \<Rightarrow> string" where
  "ascii_trim s = rev (dropWhile is_space (rev (dropWhile is_space s)))"

definition ascii_methods :: string_methods where
  "ascii_methods =
     \<lparr>toUpperCase = map ascii_upper_char, toLowerCase = map ascii_lower_char, trim = ascii_trim\<rparr>"

text \<open>\<open>s.split(c)\<close> for a one-character separator.\<close>

fun split :: "char \<Rightarrow> string \<Rightarrow> string list" where
  "split c [] = [[]]"
| "split c (x # xs) =
     (if x = c then [] # split c xs
      else (case split c xs of p # ps \<Rightarrow> (x # p) # ps | [] \<Rightarrow> [[x]]))"

section \<open>schema-utils.js: enum normalization\<close>

text \<open>
  The keywords of a JSON schema that \<open>normalizeEnumValues\<close> reads: \<open>type\<close> (when it is
  a string), \<open>enum\<close> (an array), \<open>properties\<close> (an object of schemas) and \<open>items\<close>
  (a schema). A keyword that is absent is \<open>None\<close>.
\<close>

datatype schema =
  Schema (schema_type: "string option") (schema_enum: "json list option")
         (schema_properties: "(string \<times> schema) list option") (schema_items: "schema option")

text \<open>The table \<open>variations\<close> of common variations, in declaration order.\<close>

definition variations :: "(string \<times> string) list" where
  "variations =
    [(''BUG'', ''DEBUG''), (''FIX'', ''DEBUG''), (''BUGFIX'', ''DEBUG''), (''BUG_FIX'', ''DEBUG''),
     (''INVESTIGATE'', ''DEBUG''), (''TROUBLESHOOT'', ''DEBUG''),
     (''IMPLEMENT'', ''TASK''), (''BUILD'', ''TASK''), (''CREATE'', ''TASK''), (''ADD'', ''TASK''),
     (''FEATURE'', ''TASK''),
     (''QUESTION'', ''INQUIRY''), (''ASK'', ''INQUIRY''), (''EXPLORE'', ''INQUIRY''),
     (''RESEARCH'', ''INQUIRY''), (''UNDERSTAND'', ''INQUIRY''),
     (''EASY'', ''TRIVIAL''), (''BASIC'', ''SIMPLE''), (''MINOR'', ''SIMPLE''),
     (''MODERATE'', ''STANDARD''), (''MEDIUM'', ''STANDARD''), (''NORMAL'', ''STANDARD''),
     (''HARD'', ''STANDARD''),
     (''COMPLEX'', ''CRITICAL''), (''RISKY'', ''CRITICAL''), (''HIGH_RISK'', ''CRITICAL''),
     (''DANGEROUS'', ''CRITICAL'')]"

text \<open>\<open>propSchema.enum.includes(p)\<close> for a string \<open>p\<close>.\<close>

definition enum_includes :: "json list \<Rightarrow> string \<Rightarrow> bool" where
  "enum_includes enum p = (JString p \<in> set enum)"

text \<open>
  \<open>propSchema.enum.find((e) => e.toUpperCase() === value)\<close>. The callback throws a
  \<open>TypeError\<close> on an entry that is not a string, which is the outer \<open>None\<close>;
  \<open>Some None\<close> is \<open>undefined\<close>, no entry found.
\<close>

fun find_match :: "string_methods \<Rightarrow> json list \<Rightarrow> string \<Rightarrow> string option option" where
  "find_match js [] v = Some None"
| "find_match js (JString e # es) v =
     (if toUpperCase js e = v then Some (Some e) else find_match js es v)"
| "find_match js (e # es) v = None"

text \<open>
  The detection of a copied enum list, on the trimmed upper-case value \<open>v\<close>: when \<open>v\<close>
  holds a \<open>|\<close> and at least two of its parts are enum options, the value becomes the
  first such part, unless that part is the empty string.
\<close>

definition collapse_enum_list :: "string_methods \<Rightarrow> json list \<Rightarrow> string \<Rightarrow> string" where
  "collapse_enum_list js enum v =
    (if CHR ''|'' \<in> set v then
       (let parts = map (trim js) (split CHR ''|'' v);
            matchCount = length (filter (enum_includes enum) parts)
        in if matchCount \<ge> 2 then
             (case find (enum_includes enum) parts of
                Some firstValid \<Rightarrow> if firstValid \<noteq> [] then firstValid else v
              | None \<Rightarrow> v)
           else v)
     else v)"

text \<open>
  The first \<open>if\<close> of the loop body, on a property that has an \<open>enum\<close> and holds the string
  \<open>s\<close>. The result is \<open>None\<close> when the \<open>TypeError\<close> is thrown; otherwise the string assigned
  to \<open>result[key]\<close>, if any, and whether \<open>continue\<close> was reached.
\<close>

definition normalize_string ::
  "string_methods \<Rightarrow> json list \<Rightarrow> string \<Rightarrow> (string option \<times> bool) option" where
  "normalize_string js enum s =
    (let v = collapse_enum_list js enum (toUpperCase js (trim js s)) in
     case find_match js enum v of
       None \<Rightarrow> None
     | Some m \<Rightarrow>
        if truthy_str m then Some (m, True)
        else (case map_of variations v of
                Some w \<Rightarrow> if w \<noteq> [] \<and> enum_includes enum w then Some (Some w, False)
                          else Some (None, False)
              | None \<Rightarrow> Some (None, False)))"

text \<open>
  The first \<open>if\<close> of the loop body, on \<open>result\<close>: the new \<open>result\<close> and whether
  \<open>continue\<close> was reached. \<open>enum\<close> is \<open>propSchema.enum\<close>.
\<close>

definition enum_part ::
  "string_methods \<Rightarrow> json \<Rightarrow> string \<Rightarrow> json list option \<Rightarrow> (json \<times> bool) option" where
  "enum_part js result key enum =
    (case (enum, get_prop result key) of
       (Some en, Some (JString s)) \<Rightarrow>
         (case normalize_string js en s of
            None \<Rightarrow> None
          | Some (None, c) \<Rightarrow> Some (result, c)
          | Some (Some s', c) \<Rightarrow> Some (put_prop result key (JString s'), c))
     | _ \<Rightarrow> Some (result, False))"

text \<open>
  \<open>normalizeEnumValues(result, schema)\<close>. The source mutates \<open>result\<close> and the values
  nested in it in place and returns it; here the new value is returned, \<open>None\<close> when the
  \<open>TypeError\<close> above is thrown. \<open>normalizeProperties\<close> is the loop over
  \<open>Object.entries(schema.properties)\<close> and \<open>normalizeItems\<close> the loop over the items of
  an array. A \<open>schema\<close> that is \<open>null\<close> or \<open>undefined\<close> behaves as one without
  \<open>properties\<close>.
\<close>

fun normalizeEnumValues :: "string_methods \<Rightarrow> json \<Rightarrow> schema \<Rightarrow> json option"
  and normalizeProperties :: "string_methods \<Rightarrow> json \<Rightarrow> (string \<times> schema) list \<Rightarrow> json option"
  and normalizeItems :: "string_methods \<Rightarrow> json list \<Rightarrow> schema \<Rightarrow> json list option" where
  "normalizeEnumValues js result (Schema ty enum props its) =
    (case props of
       None \<Rightarrow> Some result
     | Some entries \<Rightarrow>
        if \<not> truthy result \<or> \<not> typeof_object result then Some result
        else normalizeProperties js result entries)"
| "normalizeProperties js result [] = Some result"
| "normalizeProperties js result ((key, Schema ty enum props its) # rest) =
    (case enum_part js result key enum of
       None \<Rightarrow> None
     | Some (result1, True) \<Rightarrow> normalizeProperties js result1 rest
     | Some (result1, False) \<Rightarrow>
        (case (if ty = Some ''object'' \<and> props \<noteq> None \<and> truthy_opt (get_prop result1 key) then
                 (case normalizeEnumValues js (the (get_prop result1 key)) (Schema ty enum props its) of
                    None \<Rightarrow> None
                  | Some v \<Rightarrow> Some (put_prop result1 key v))
               else Some result1) of
           None \<Rightarrow> None
         | Some result2 \<Rightarrow>
            (case (case (ty, its, get_prop result2 key) of
                     (Some t, Some (Schema ity ienum (Some iprops) iits), Some (JArray xs)) \<Rightarrow>
                       if t = ''array'' then
                         (case normalizeItems js xs (Schema ity ienum (Some iprops) iits) of
                            None \<Rightarrow> None
                          | Some ys \<Rightarrow> Some (put_prop result2 key (JArray ys)))
                       else Some result2
                   | _ \<Rightarrow> Some result2) of
               None \<Rightarrow> None
             | Some result3 \<Rightarrow> normalizeProperties js result3 rest)))"
| "normalizeItems js [] s = Some []"
| "normalizeItems js (item # items) s =
    (case normalizeEnumValues js item s of
       None \<Rightarrow> None
     | Some item' \<Rightarrow>
        (case normalizeItems js items s of
           None \<Rightarrow> None
         | Some items' \<Rightarrow> Some (item' # items')))"

text \<open>
  Well-formedness of a schema, for the idempotence of the normalization: the property names
  of every \<open>properties\<close> object are distinct (as the keys of an object are), and in every
  \<open>enum\<close> that includes a target of the table of variations (\<open>DEBUG\<close>, \<open>TASK\<close>,
  \<open>INQUIRY\<close>, \<open>TRIVIAL\<close>, \<open>SIMPLE\<close>, \<open>STANDARD\<close>, \<open>CRITICAL\<close>), the first string
  that equals the target up to letter case is the target itself.
\<close>

definition variation_targets_first :: "string_methods \<Rightarrow> json list \<Rightarrow> bool" where
  "variation_targets_first js enum =
     (\<forall>w \<in> set (map snd variations).
        JString w \<in> set enum \<longrightarrow>
        find (\<lambda>e. case e of JString a \<Rightarrow> toUpperCase js a = w | _ \<Rightarrow> False) enum
          = Some (JString w))"

fun wf_schema :: "string_methods \<Rightarrow> schema \<Rightarrow> bool" where
  "wf_schema js (Schema ty enum props its) =
     ((case enum of None \<Rightarrow> True | Some en \<Rightarrow> variation_targets_first js en)
      \<and> (case props of
            None \<Rightarrow> True
          | Some entries \<Rightarrow> distinct (map fst entries) \<and> (\<forall>(k, p) \<in> set entries. wf_schema js p))
      \<and> (case its of None \<Rightarrow> True | Some i \<Rightarrow> wf_schema js i))"

text \<open>The body of the loop over the properties, run for one property.\<close>

definition prop_step :: "string_methods \<Rightarrow> string \<Rightarrow> schema \<Rightarrow> json \<Rightarrow> json option" where
  "prop_step js key propSchema result = normalizeProperties js result [(key, propSchema)]"

text \<open>The second and the third \<open>if\<close> of the loop body, as functions of their own.\<close>

definition object_part :: "string_methods \<Rightarrow> json \<Rightarrow> string \<Rightarrow> schema \<Rightarrow> json option" where
  "object_part js result key propSchema =
    (if schema_type propSchema = Some ''object'' \<and> schema_properties propSchema \<noteq> None
        \<and> truthy_opt (get_prop result key) then
       (case normalizeEnumValues js (the (get_prop result key)) propSchema of
          None \<Rightarrow> None
        | Some v \<Rightarrow> Some (put_prop result key v))
     else Some result)"

definition array_part :: "string_methods \<Rightarrow> json \<Rightarrow> string \<Rightarrow> schema \<Rightarrow> json option" where
  "array_part js result key propSchema =
    (case (schema_type propSchema, schema_items propSchema, get_prop result key) of
       (Some t, Some (Schema ity ienum (Some iprops) iits), Some (JArray xs)) \<Rightarrow>
         if t = ''array'' then
           (case normalizeItems js xs (Schema ity ienum (Some iprops) iits) of
              None \<Rightarrow> None
            | Some ys \<Rightarrow> Some (put_prop result key (JArray ys)))
         else Some result
     | _ \<Rightarrow> Some result)"

text \<open>
  What the loop body does to the property it visits, as a function of the value \<open>v\<close> the
  property holds (\<open>None\<close> when it is absent): \<open>None\<close> when the \<open>TypeError\<close> is
  thrown, \<open>Some None\<close> when the property is left as it is, \<open>Some (Some x)\<close> when it
  becomes \<open>x\<close>. Lemma \<open>prop_step_value\<close> relates it to the loop body.
\<close>

definition prop_value :: "string_methods \<Rightarrow> schema \<Rightarrow> json option \<Rightarrow> json option option" where
  "prop_value js propSchema v =
    (case v of
       None \<Rightarrow> Some None
     | Some (JString s) \<Rightarrow>
        (case schema_enum propSchema of
           None \<Rightarrow> Some None
         | Some en \<Rightarrow>
            (case normalize_string js en s of
               None \<Rightarrow> None
             | Some (None, c) \<Rightarrow> Some None
             | Some (Some s', c) \<Rightarrow> Some (Some (JString s'))))
     | Some x \<Rightarrow>
        if schema_type propSchema = Some ''object'' \<and> schema_properties propSchema \<noteq> None
           \<and> truthy x
        then (case normalizeEnumValues js x propSchema of None \<Rightarrow> None | Some y \<Rightarrow> Some (Some y))
        else (case (schema_type propSchema, schema_items propSchema, x) of
                (Some t, Some (Schema ity ienum (Some iprops) iits), JArray xs) \<Rightarrow>
                  if t = ''array'' then
                    (case normalizeItems js xs (Schema ity ienum (Some iprops) iits) of
                       None \<Rightarrow> None
                     | Some ys \<Rightarrow> Some (Some (JArray ys)))
                  else Some None
              | _ \<Rightarrow> Some None))"

text \<open>The effect of one loop body on \<open>result\<close>, given what it does to the property.\<close>

definition apply_value :: "json \<Rightarrow> string \<Rightarrow> json option option \<Rightarrow> json option" where
  "apply_value result key n =
    (case n of None \<Rightarrow> None | Some None \<Rightarrow> Some result | Some (Some x) \<Rightarrow> Some (put_prop result key x))"

section \<open>claude-task-runner.js: output format and schema arguments\<close>

text \<open>
  The options of \<open>run\<close> that decide the output format; \<open>None\<close> is a property that
  is absent, for which the destructuring default applies.
\<close>

record task_options =
  outputFormat :: "string option"
  jsonSchema :: "json option"
  strictSchema :: "bool option"
  isolation_enabled :: bool

record model_spec =
  spec_model :: "string option"
  spec_reasoningEffort :: "string option"

definition desiredOutputFormat :: "task_options \<Rightarrow> string" where
  "desiredOutputFormat opts = (case outputFormat opts of None \<Rightarrow> ''stream-json'' | Some f \<Rightarrow> f)"

definition schema_configured :: "task_options \<Rightarrow> bool" where
  "schema_configured opts = truthy_opt (jsonSchema opts)"

definition strict :: "task_options \<Rightarrow> bool" where
  "strict opts = (case strictSchema opts of None \<Rightarrow> False | Some b \<Rightarrow> b)"

text \<open>
  \<open>runOutputFormat\<close>, computed the same way in \<open>run\<close> and in \<open>_runIsolated\<close>.
\<close>

definition runOutputFormat :: "task_options \<Rightarrow> string" where
  "runOutputFormat opts =
     (if schema_configured opts \<and> desiredOutputFormat opts = ''json'' \<and> \<not> strict opts
      then ''stream-json'' else desiredOutputFormat opts)"

text \<open>
  The arguments pushed for the resolved model specification, which may be \<open>null\<close>.
\<close>

definition model_args :: "model_spec option \<Rightarrow> string list" where
  "model_args spec =
     (case spec of
        None \<Rightarrow> []
      | Some sp \<Rightarrow>
          (if truthy_str (spec_model sp) then [''--model'', the (spec_model sp)] else [])
          @ (if truthy_str (spec_reasoningEffort sp)
             then [''--reasoning-effort'', the (spec_reasoningEffort sp)] else []))"

text \<open>
  The argument vector \<open>run\<close> spawns \<open>zeroshot\<close> with. \<open>stringify\<close> is
  \<open>JSON.stringify\<close>; the provider name and the model specification are those \<open>run\<close>
  resolved from the settings.
\<close>

definition run_args ::
  "(json \<Rightarrow> string) \<Rightarrow> string \<Rightarrow> model_spec option \<Rightarrow> task_options \<Rightarrow> string \<Rightarrow> string list" where
  "run_args stringify providerName spec opts context =
     [''task'', ''run'', ''--output-format'', runOutputFormat opts, ''--provider'', providerName]
     @ model_args spec
     @ (if schema_configured opts \<and> runOutputFormat opts = ''json''
        then [''--json-schema'', stringify (the (jsonSchema opts))] else [])
     @ [context]"

text \<open>
  The command \<open>_runIsolated\<close> runs in the container. \<open>stringify_pretty\<close> is
  \<open>JSON.stringify(_, null, 2)\<close>, used for the schema embedded in the prompt.
\<close>

definition output_format_block :: "string \<Rightarrow> string" where
  "output_format_block schemaText =
     [CHR 0x0A, CHR 0x0A] @ ''## Output Format (REQUIRED)'' @ [CHR 0x0A, CHR 0x0A]
     @ ''Return a JSON object that matches this schema exactly.'' @ [CHR 0x0A, CHR 0x0A]
     @ ''Schema:'' @ [CHR 0x0A] @ ''```json'' @ [CHR 0x0A] @ schemaText @ [CHR 0x0A] @ ''```''
     @ [CHR 0x0A]"

definition runIsolated_command ::
  "(json \<Rightarrow> string) \<Rightarrow> (json \<Rightarrow> string) \<Rightarrow> string \<Rightarrow> model_spec option \<Rightarrow> task_options
     \<Rightarrow> string \<Rightarrow> string list" where
  "runIsolated_command stringify stringify_pretty provider spec opts context =
     [''zeroshot'', ''task'', ''run'', ''--output-format'', runOutputFormat opts, ''--provider'', provider]
     @ model_args spec
     @ (if schema_configured opts \<and> runOutputFormat opts = ''json''
        then [''--json-schema'', stringify (the (jsonSchema opts))] else [])
     @ [if schema_configured opts \<and> desiredOutputFormat opts = ''json''
           \<and> runOutputFormat opts = ''stream-json''
        then context @ output_format_block (stringify_pretty (the (jsonSchema opts)))
        else context]"

text \<open>
  What \<open>run\<close> spawns: the command in the container when isolation is enabled, the
  \<open>zeroshot\<close> process with its arguments otherwise.
\<close>

datatype spawned = InContainer "string list" | Process string "string list"

definition run ::
  "(json \<Rightarrow> string) \<Rightarrow> (json \<Rightarrow> string) \<Rightarrow> string \<Rightarrow> model_spec option \<Rightarrow> task_options
     \<Rightarrow> string \<Rightarrow> spawned" where
  "run stringify stringify_pretty providerName spec opts context =
     (if isolation_enabled opts
      then InContainer (runIsolated_command stringify stringify_pretty providerName spec opts context)
      else Process ''zeroshot'' (run_args stringify providerName spec opts context))"

section \<open>task-lib/store.js: the lock and the stores\<close>

definition LOCK_STALE_MS :: real where
  "LOCK_STALE_MS = 5000"

record retry_options =
  retries :: nat
  minTimeout :: real
  maxTimeout :: real
  randomize :: bool

record lock_options =
  stale :: real
  retry :: retry_options

definition LOCK_OPTIONS :: lock_options where
  "LOCK_OPTIONS =
     \<lparr>stale = LOCK_STALE_MS,
      retry = \<lparr>retries = 20, minTimeout = 100, maxTimeout = 200, randomize = True\<rparr>\<rparr>"

text \<open>
  What \<open>cleanStaleLock\<close> sees of the file system: the time \<open>Date.now()\<close>, whether the
  lock file exists, what \<open>statSync\<close> gives for it (its \<open>mtimeMs\<close>, or the error it
  throws) and whether \<open>unlinkSync\<close> succeeds. Times are in milliseconds.
\<close>

record lock_env =
  now :: real
  lock_exists :: bool
  stat_mtimeMs :: "string + real"
  unlink_error :: "string option"

text \<open>
  \<open>cleanStaleLock(filePath)\<close>: whether the lock file exists afterwards. An error thrown
  by \<open>statSync\<close> or \<open>unlinkSync\<close> is caught and ignored.
\<close>

definition cleanStaleLock :: "lock_env \<Rightarrow> bool" where
  "cleanStaleLock env =
     (if lock_exists env then
        (case stat_mtimeMs env of
           Inl err \<Rightarrow> True
         | Inr mtimeMs \<Rightarrow>
             (let age = now env - mtimeMs in
              if age > LOCK_STALE_MS then
                (case unlink_error env of None \<Rightarrow> False | Some err \<Rightarrow> True)
              else True))
      else False)"

text \<open>
  Modelled from the spec: \<open>lockfile.lock\<close> belongs to the package \<open>proper-lockfile\<close>,
  whose code is not among the sources. The spec says that acquisition retries with jittered
  backoff, up to about 4 s. The model follows the retry options that \<open>LOCK_OPTIONS\<close>
  passes: an attempt that finds the lock held is followed, while retries remain, by a wait
  and another attempt. The wait before retry \<open>k\<close> (counted from 0) is \<open>minTimeout\<close>
  times \<open>2 ^ k\<close>, times a random factor between 1 and 2 when \<open>randomize\<close> is set,
  rounded, and at most \<open>maxTimeout\<close>. \<open>busy k\<close> tells whether attempt \<open>k\<close> finds the lock
  held by another process (by a lock that is not older than the \<open>stale\<close> option), and
  \<open>rnd k\<close> is the random number, at least 0 and below 1, drawn for wait \<open>k\<close>. The result
  tells whether the lock was acquired, and lists the waits in milliseconds.
\<close>

definition retry_wait :: "retry_options \<Rightarrow> real \<Rightarrow> nat \<Rightarrow> real" where
  "retry_wait opts random k =
     min (maxTimeout opts)
         (of_int (round ((if randomize opts then 1 + random else 1)
                          * max (minTimeout opts) 1 * 2 ^ k)))"

fun lock_attempts ::
  "retry_options \<Rightarrow> (nat \<Rightarrow> bool) \<Rightarrow> (nat \<Rightarrow> real) \<Rightarrow> nat \<Rightarrow> nat \<Rightarrow> bool \<times> real list" where
  "lock_attempts opts busy rnd k 0 = (\<not> busy k, [])"
| "lock_attempts opts busy rnd k (Suc left) =
     (if busy k then
        (case lock_attempts opts busy rnd (Suc k) left of
           (acquired, waits) \<Rightarrow> (acquired, retry_wait opts (rnd k) k # waits))
      else (True, []))"

definition lockfile_lock ::
  "lock_options \<Rightarrow> (nat \<Rightarrow> bool) \<Rightarrow> (nat \<Rightarrow> real) \<Rightarrow> bool \<times> real list" where
  "lockfile_lock opts busy rnd = lock_attempts (retry opts) busy rnd 0 (retries (retry opts))"

text \<open>
  The start of \<open>withTasksLock\<close>, from \<open>cleanStaleLock(TASKS_FILE)\<close> to the end of
  \<open>lockfile.lock(TASKS_FILE, LOCK_OPTIONS)\<close>: whether a lock file was left in place by
  \<open>cleanStaleLock\<close>, whether the lock was acquired, and the waits of the acquisition.
\<close>

definition withTasksLock_acquire ::
  "lock_env \<Rightarrow> (nat \<Rightarrow> bool) \<Rightarrow> (nat \<Rightarrow> real) \<Rightarrow> bool \<times> bool \<times> real list" where
  "withTasksLock_acquire env busy rnd =
     (let left_in_place = cleanStaleLock env;
          (acquired, waits) = lockfile_lock LOCK_OPTIONS busy rnd
      in (left_in_place, acquired, waits))"

text \<open>
  A store file: missing, present but unreadable (\<open>readFileSync\<close> throws), or present with
  its content. \<open>dirs_error\<close> is the error \<open>ensureDirs\<close> throws, if any.
\<close>

datatype store_file = Missing | Unreadable string | Content string

record store =
  dirs_error :: "string option"
  store_file :: store_file

text \<open>
  \<open>loadTasks()\<close> and \<open>loadSchedules()\<close>. \<open>parse\<close> is \<open>JSON.parse\<close>: the value, or the
  message of the \<open>SyntaxError\<close>. A thrown error is \<open>Inl\<close> of its message.
\<close>

definition load_store :: "string \<Rightarrow> (string \<Rightarrow> string + json) \<Rightarrow> store \<Rightarrow> string + json" where
  "load_store name parse st =
     (case dirs_error st of
        Some err \<Rightarrow> Inl err
      | None \<Rightarrow>
          (case store_file st of
             Missing \<Rightarrow> Inr (JObject [])
           | Unreadable err \<Rightarrow> Inl err
           | Content content \<Rightarrow>
               (case parse content of
                  Inr v \<Rightarrow> Inr v
                | Inl message \<Rightarrow>
                    Inl (''CRITICAL: '' @ name @ '' is corrupted and cannot be parsed. Error: ''
                         @ message @ ''. Content: '' @ take 200 content @ ''...''))))"

definition loadTasks :: "(string \<Rightarrow> string + json) \<Rightarrow> store \<Rightarrow> string + json" where
  "loadTasks = load_store ''tasks.json''"

definition loadSchedules :: "(string \<Rightarrow> string + json) \<Rightarrow> store \<Rightarrow> string + json" where
  "loadSchedules = load_store ''schedules.json''"

section \<open>Model selection by iteration rules\<close>

text \<open>
  Modelled from the spec: \<open>AgentWrapper._selectModel\<close> and the matcher of iteration
  patterns it calls (\<open>src/agent-wrapper.js\<close>) are not among the sources; only their
  tests are. The spec gives the patterns \<open>"N"\<close> (exact), \<open>"N-M"\<close> (inclusive range),
  \<open>"N+"\<close> (open-ended) and \<open>"all"\<close>, the choice of the first rule whose pattern matches
  the current iteration, and the \<open>NO_MODEL_RULE\<close> error when none does; the tests add
  the error for a pattern of no such form.
\<close>

definition is_digit :: "char \<Rightarrow> bool" where
  "is_digit c = (48 \<le> (of_char c :: nat) \<and> (of_char c :: nat) \<le> 57)"

definition digit_value :: "char \<Rightarrow> nat" where
  "digit_value c = of_char c - 48"

definition nat_of_digits :: "string \<Rightarrow> nat" where
  "nat_of_digits s = foldl (\<lambda>acc c. 10 * acc + digit_value c) 0 s"

definition all_digits :: "string \<Rightarrow> bool" where
  "all_digits s = (s \<noteq> [] \<and> list_all is_digit s)"

datatype iteration_pattern =
    MatchAll
  | MatchExact nat
  | MatchRange nat nat
  | MatchFrom nat

definition parse_pattern :: "string \<Rightarrow> iteration_pattern option" where
  "parse_pattern s =
     (if s = ''all'' then Some MatchAll
      else if all_digits s then Some (MatchExact (nat_of_digits s))
      else if s \<noteq> [] \<and> last s = CHR ''+'' \<and> all_digits (butlast s)
        then Some (MatchFrom (nat_of_digits (butlast s)))
      else (case split CHR ''-'' s of
              [a, b] \<Rightarrow>
                if all_digits a \<and> all_digits b
                then Some (MatchRange (nat_of_digits a) (nat_of_digits b)) else None
            | _ \<Rightarrow> None))"

fun pattern_matches :: "iteration_pattern \<Rightarrow> nat \<Rightarrow> bool" where
  "pattern_matches MatchAll i = True"
| "pattern_matches (MatchExact n) i = (i = n)"
| "pattern_matches (MatchRange n m) i = (n \<le> i \<and> i \<le> m)"
| "pattern_matches (MatchFrom n) i = (n \<le> i)"

datatype selection_error = NO_MODEL_RULE nat | INVALID_PATTERN string

definition matchesIteration :: "string \<Rightarrow> nat \<Rightarrow> selection_error + bool" where
  "matchesIteration pattern iteration =
     (case parse_pattern pattern of
        None \<Rightarrow> Inl (INVALID_PATTERN pattern)
      | Some p \<Rightarrow> Inr (pattern_matches p iteration))"

fun selectModelRule :: "model_rule list \<Rightarrow> nat \<Rightarrow> selection_error + model_rule" where
  "selectModelRule [] iteration = Inl (NO_MODEL_RULE iteration)"
| "selectModelRule (rule # rules) iteration =
     (case matchesIteration (iterations rule) iteration of
        Inl e \<Rightarrow> Inl e
      | Inr True \<Rightarrow> Inr rule
      | Inr False \<Rightarrow> selectModelRule rules iteration)"

section \<open>lib/provider-names.js\<close>

text \<open>
  Objects built by the settings code. \<open>assign obj key v\<close> is \<open>obj[key] = v\<close> on own
  properties: an existing property is overwritten in place, a new one is added last (the
  place of a name that is an array index among the other names is not modelled: every
  property is read by name). \<open>own_entries v\<close> are the own enumerable properties that
  \<open>{...v}\<close> copies from a value (none for \<open>undefined\<close>, \<open>null\<close>, numbers and booleans;
  the indices of an array or of a string), and \<open>spread base v\<close> is \<open>{...base, ...v}\<close>.
\<close>

fun assign :: "(string \<times> 'a) list \<Rightarrow> string \<Rightarrow> 'a \<Rightarrow> (string \<times> 'a) list" where
  "assign [] key x = [(key, x)]"
| "assign ((k, v) # kvs) key x = (if k = key then (k, x) # kvs else (k, v) # assign kvs key x)"

definition assign_all :: "(string \<times> 'a) list \<Rightarrow> (string \<times> 'a) list \<Rightarrow> (string \<times> 'a) list" where
  "assign_all base entries = foldl (\<lambda>obj (k, x). assign obj k x) base entries"

fun own_entries :: "json option \<Rightarrow> (string \<times> json) list" where
  "own_entries (Some (JObject kvs)) = kvs"
| "own_entries (Some (JArray xs)) = zip (map string_of_nat [0..<length xs]) xs"
| "own_entries (Some (JString s)) = zip (map string_of_nat [0..<length s]) (map (\<lambda>c. JString [c]) s)"
| "own_entries v = []"

definition spread :: "(string \<times> json) list \<Rightarrow> json option \<Rightarrow> (string \<times> json) list" where
  "spread base v = assign_all base (own_entries v)"

text \<open>\<open>v || {}\<close> for a value that may be \<open>undefined\<close>.\<close>

definition or_empty :: "json option \<Rightarrow> json option" where
  "or_empty v = (if truthy_opt v then v else Some (JObject []))"

text \<open>
  The values the settings code handles are JSON values and two kinds of values that are
  not JSON. Looking up a table, which is an object literal, by a name read from the file
  reaches the properties the table inherits from \<open>Object.prototype\<close>:
  \<open>Inherited name\<close> is \<open>Object.prototype[name]\<close>, a function, or \<open>Object.prototype\<close>
  itself for the name \<open>__proto__\<close>. Assigning to the property \<open>__proto__\<close> of an object
  sets its prototype: \<open>Prototyped p kvs\<close> is an object with the own properties \<open>kvs\<close>
  whose prototype has been set to \<open>p\<close>, an object, an array or \<open>null\<close>.
\<close>

datatype jsvalue =
    Json json
  | Inherited string
  | Prototyped json "(string \<times> json) list"

fun truthy_value :: "jsvalue \<Rightarrow> bool" where
  "truthy_value (Json v) = truthy v"
| "truthy_value v = True"

text \<open>The names of the properties of \<open>Object.prototype\<close>.\<close>

definition OBJECT_PROTOTYPE_NAMES :: "string list" where
  "OBJECT_PROTOTYPE_NAMES =
     [''constructor'', ''__defineGetter__'', ''__defineSetter__'', ''hasOwnProperty'',
      ''__lookupGetter__'', ''__lookupSetter__'', ''isPrototypeOf'', ''propertyIsEnumerable'',
      ''toString'', ''valueOf'', ''__proto__'', ''toLocaleString'']"

definition PROVIDER_ALIASES :: "(string \<times> string) list" where
  "PROVIDER_ALIASES =
     [(''anthropic'', ''claude''), (''openai'', ''codex''), (''google'', ''gemini''),
      (''claude'', ''claude''), (''codex'', ''codex''), (''gemini'', ''gemini'')]"

definition VALID_PROVIDERS :: "string list" where
  "VALID_PROVIDERS = [''claude'', ''codex'', ''gemini'']"

text \<open>\<open>PROVIDER_ALIASES[key]\<close>, \<open>None\<close> for \<open>undefined\<close>.\<close>

definition alias_lookup :: "string \<Rightarrow> jsvalue option" where
  "alias_lookup key =
     (case map_of PROVIDER_ALIASES key of
        Some normalized \<Rightarrow> Some (Json (JString normalized))
      | None \<Rightarrow> if key \<in> set OBJECT_PROTOTYPE_NAMES then Some (Inherited key) else None)"

definition normalizeProviderName :: "string_methods \<Rightarrow> jsvalue \<Rightarrow> jsvalue" where
  "normalizeProviderName js name =
     (case name of
        Json (JString s) \<Rightarrow>
          if s = [] then name
          else (case alias_lookup (toLowerCase js s) of
                  Some normalized \<Rightarrow> normalized
                | None \<Rightarrow> name)
      | _ \<Rightarrow> name)"

text \<open>
  The entries sorted by the comparator of \<open>normalizeProviderSettings\<close>: the sort is
  stable, so the names that are not canonical come first and each group keeps its order.
\<close>

definition isCanonical :: "string_methods \<Rightarrow> string \<Rightarrow> bool" where
  "isCanonical js key = (normalizeProviderName js (Json (JString key)) = Json (JString key))"

definition aliasFirst :: "string_methods \<Rightarrow> (string \<times> json) list \<Rightarrow> (string \<times> json) list" where
  "aliasFirst js entries =
     filter (\<lambda>(k, v). \<not> isCanonical js k) entries @ filter (\<lambda>(k, v). isCanonical js k) entries"

text \<open>
  The object \<open>normalized\<close> while \<open>normalizeProviderSettings\<close> builds it: its prototype,
  \<open>None\<close> as long as it is \<open>Object.prototype\<close>, and its own properties.
  \<open>normalized_member\<close> is \<open>normalized[name]\<close> for the name of a provider, which is read
  from the prototype when it is not an own property, and \<open>set_member\<close> is
  \<open>normalized[key] = value\<close>: for the key \<open>__proto__\<close> the setter inherited from
  \<open>Object.prototype\<close> sets the prototype to an object, an array or \<open>null\<close> and ignores
  any other value; an object whose prototype is \<open>null\<close> has lost that setter.
\<close>

type_synonym normalized_object = "json option \<times> (string \<times> json) list"

definition normalized_member :: "normalized_object \<Rightarrow> string \<Rightarrow> json option" where
  "normalized_member normalized name =
     (case map_of (snd normalized) name of
        Some v \<Rightarrow> Some v
      | None \<Rightarrow> (case fst normalized of None \<Rightarrow> None | Some p \<Rightarrow> get_prop p name))"

definition set_member :: "normalized_object \<Rightarrow> string \<Rightarrow> json \<Rightarrow> normalized_object" where
  "set_member normalized key v =
     (if key = ''__proto__'' \<and> fst normalized \<noteq> Some JNull then
        (if typeof_object v then (Some v, snd normalized) else normalized)
      else (fst normalized, assign (snd normalized) key v))"

text \<open>The body of the loop of \<open>normalizeProviderSettings\<close>, for one entry.\<close>

definition normalize_entry ::
  "string_methods \<Rightarrow> normalized_object \<Rightarrow> string \<times> json \<Rightarrow> normalized_object" where
  "normalize_entry js normalized entry =
     (case entry of (key, v) \<Rightarrow>
        (case normalizeProviderName js (Json (JString key)) of
           Json (JString canonical) \<Rightarrow>
             if canonical \<in> set VALID_PROVIDERS then
               (fst normalized,
                assign (snd normalized) canonical
                  (JObject (spread (spread [] (or_empty (normalized_member normalized canonical)))
                                   (or_empty (Some v)))))
             else set_member normalized key v
         | _ \<Rightarrow> set_member normalized key v))"

definition normalizeProviderSettings :: "string_methods \<Rightarrow> json \<Rightarrow> jsvalue" where
  "normalizeProviderSettings js providerSettings =
     (case providerSettings of
        JObject entries \<Rightarrow>
          (case foldl (normalize_entry js) (None, []) (aliasFirst js entries) of
             (None, own) \<Rightarrow> Json (JObject own)
           | (Some p, own) \<Rightarrow> Prototyped p own)
      | _ \<Rightarrow> Json providerSettings)"

section \<open>lib/settings.js: loading the settings\<close>

definition LEVEL_RANKS :: "(string \<times> nat) list" where
  "LEVEL_RANKS = [(''level1'', 1), (''level2'', 2), (''level3'', 3)]"

definition default_provider_settings :: json where
  "default_provider_settings =
     JObject [(''maxLevel'', JString ''level3''), (''minLevel'', JString ''level1''),
              (''defaultLevel'', JString ''level2''), (''levelOverrides'', JObject [])]"

definition DEFAULT_SETTINGS :: "(string \<times> json) list" where
  "DEFAULT_SETTINGS =
     [(''maxModel'', JString ''opus''),
      (''minModel'', JNull),
      (''defaultProvider'', JString ''claude''),
      (''providerSettings'',
         JObject [(''claude'', default_provider_settings), (''codex'', default_provider_settings),
                  (''gemini'', default_provider_settings)]),
      (''defaultConfig'', JString ''conductor-bootstrap''),
      (''defaultDocker'', JBool False),
      (''strictSchema'', JBool True),
      (''logLevel'', JString ''normal''),
      (''autoCheckUpdates'', JBool True),
      (''lastUpdateCheckAt'', JNull),
      (''lastSeenVersion'', JNull),
      (''claudeCommand'', JString ''claude''),
      (''dockerMounts'', JArray [JString ''gh'', JString ''git'', JString ''ssh'']),
      (''dockerEnvPassthrough'', JArray []),
      (''dockerContainerHome'', JString ''/home/node'')]"

text \<open>
  A settings object: its own properties, which hold JSON values except where the code
  above has put another value. \<open>settings_of\<close> is \<open>{...obj}\<close> for an object of JSON
  values.
\<close>

type_synonym settings = "(string \<times> jsvalue) list"

definition settings_of :: "(string \<times> json) list \<Rightarrow> settings" where
  "settings_of entries = map (\<lambda>(k, v). (k, Json v)) entries"

definition mapLegacyModelToLevel :: "jsvalue option \<Rightarrow> string option" where
  "mapLegacyModelToLevel m =
     (if m = Some (Json (JString ''haiku'')) then Some ''level1''
      else if m = Some (Json (JString ''sonnet'')) then Some ''level2''
      else if m = Some (Json (JString ''opus'')) then Some ''level3''
      else None)"

text \<open>\<open>overrides?.[provider]\<close>, for the name of a provider.\<close>

definition optional_member :: "jsvalue option \<Rightarrow> string \<Rightarrow> json option" where
  "optional_member v name =
     (case v of
        None \<Rightarrow> None
      | Some (Json JNull) \<Rightarrow> None
      | Some (Json x) \<Rightarrow> get_prop x name
      | Some (Inherited n) \<Rightarrow> None
      | Some (Prototyped p own) \<Rightarrow> normalized_member (Some p, own) name)"

text \<open>
  The object that the loop of \<open>mergeProviderSettings\<close> builds for one provider, and
  \<open>mergeProviderSettings\<close>.
\<close>

definition merge_provider ::
  "(string \<times> json) list \<Rightarrow> jsvalue option \<Rightarrow> string \<Rightarrow> (string \<times> json) list" where
  "merge_provider current overrides provider =
     (let m = spread (spread [] (map_of current provider))
                     (or_empty (optional_member overrides provider))
      in if truthy_opt (map_of m ''levelOverrides'') then m
         else assign m ''levelOverrides'' (JObject []))"

definition mergeProviderSettings ::
  "(string \<times> json) list \<Rightarrow> jsvalue option \<Rightarrow> (string \<times> json) list" where
  "mergeProviderSettings current overrides =
     foldl (\<lambda>merged provider.
              assign merged provider (JObject (merge_provider current overrides provider)))
           (spread [] (Some (JObject current))) VALID_PROVIDERS"

text \<open>
  The property name a value is converted to when it indexes \<open>LEVEL_RANKS\<close>; \<open>None\<close>
  when the conversion throws a \<open>TypeError\<close>. An object is converted by the
  \<open>toString\<close> it inherits, unless it has an own property \<open>toString\<close>: a value parsed
  from JSON is not a function, the inherited \<open>valueOf\<close> is tried and returns the object
  itself (an own \<open>valueOf\<close> is no function either), and the conversion fails. An array is
  converted by joining the conversions of its elements, \<open>null\<close> giving the empty string.
\<close>

fun to_key :: "json \<Rightarrow> string option" where
  "to_key JNull = Some ''null''"
| "to_key (JBool b) = Some (if b then ''true'' else ''false'')"
| "to_key (JNum n) =
     Some (if n < 0 then CHR ''-'' # string_of_nat (nat (- n)) else string_of_nat (nat n))"
| "to_key (JString s) = Some s"
| "to_key (JArray xs) =
     (if None \<in> set (map (\<lambda>x. if x = JNull then Some [] else to_key x) xs) then None
      else Some (join '','' (map (\<lambda>x. if x = JNull then [] else the (to_key x)) xs)))"
| "to_key (JObject kvs) =
     (if ''toString'' \<in> set (map fst kvs) then None else Some ''[object Object]'')"

text \<open>
  What \<open>LEVEL_RANKS[v] || fallback\<close> gives: a number, or a property inherited from
  \<open>Object.prototype\<close>, which is truthy. In a comparison an inherited property is
  converted to a string, \<open>native_string\<close>: the text of a built-in function, or
  \<open>[object Object]\<close> for \<open>Object.prototype\<close>. Two strings are compared as strings, and a
  string compared with a number is \<open>NaN\<close>, for which every comparison is false.
\<close>

datatype rank_value = Rank nat | InheritedRank string

definition native_string :: "string \<Rightarrow> string" where
  "native_string name =
     (if name = ''__proto__'' then ''[object Object]''
      else ''function '' @ (if name = ''constructor'' then ''Object'' else name)
           @ ''() { [native code] }'')"

fun string_less :: "string \<Rightarrow> string \<Rightarrow> bool" where
  "string_less [] [] = False"
| "string_less [] (y # ys) = True"
| "string_less (x # xs) [] = False"
| "string_less (x # xs) (y # ys) =
     ((of_char x :: nat) < of_char y \<or> (x = y \<and> string_less xs ys))"

definition level_rank :: "json option \<Rightarrow> nat \<Rightarrow> rank_value option" where
  "level_rank v fallback =
     (case (case v of None \<Rightarrow> Some ''undefined'' | Some x \<Rightarrow> to_key x) of
        None \<Rightarrow> None
      | Some key \<Rightarrow>
          Some (case map_of LEVEL_RANKS key of
                  Some r \<Rightarrow> Rank r
                | None \<Rightarrow> if key \<in> set OBJECT_PROTOTYPE_NAMES then InheritedRank key
                          else Rank fallback))"

fun rank_gt :: "rank_value \<Rightarrow> rank_value \<Rightarrow> bool" where
  "rank_gt (Rank a) (Rank b) = (a > b)"
| "rank_gt (InheritedRank a) (InheritedRank b) = string_less (native_string b) (native_string a)"
| "rank_gt a b = False"

text \<open>
  The errors thrown inside the \<open>try\<close> block of \<open>loadSettings\<close>.
\<close>

datatype js_error = SyntaxError | TypeError | FsError

text \<open>
  The body of \<open>applyLegacyModelBounds\<close> on the object \<open>claude\<close>, given
  \<open>settings.maxModel\<close> and \<open>settings.minModel\<close>: first the two assignments of the
  legacy levels, then the ranks and the three cases.
\<close>

definition with_legacy_levels ::
  "jsvalue option \<Rightarrow> jsvalue option \<Rightarrow> (string \<times> json) list \<Rightarrow> (string \<times> json) list" where
  "with_legacy_levels maxM minM claude =
     (let c1 = (case mapLegacyModelToLevel maxM of
                  Some l \<Rightarrow> assign claude ''maxLevel'' (JString l) | None \<Rightarrow> claude)
      in case mapLegacyModelToLevel minM of
           Some l \<Rightarrow> assign c1 ''minLevel'' (JString l) | None \<Rightarrow> c1)"

definition apply_bounds ::
  "jsvalue option \<Rightarrow> jsvalue option \<Rightarrow> (string \<times> json) list \<Rightarrow> js_error + (string \<times> json) list" where
  "apply_bounds maxM minM claude =
     (let c2 = with_legacy_levels maxM minM claude
      in case (level_rank (map_of c2 ''minLevel'') 1, level_rank (map_of c2 ''maxLevel'') 3,
               level_rank (map_of c2 ''defaultLevel'') 2) of
           (Some minRank, Some maxRank, Some defaultRank) \<Rightarrow>
             Inr (if rank_gt minRank maxRank then
                    assign (assign c2 ''minLevel'' (JString ''level1'')) ''maxLevel'' (JString ''level3'')
                  else if rank_gt minRank defaultRank then
                    (case map_of c2 ''minLevel'' of
                       Some l \<Rightarrow> assign c2 ''defaultLevel'' l | None \<Rightarrow> c2)
                  else if rank_gt defaultRank maxRank then
                    (case map_of c2 ''maxLevel'' of
                       Some l \<Rightarrow> assign c2 ''defaultLevel'' l | None \<Rightarrow> c2)
                  else c2)
         | _ \<Rightarrow> Inl TypeError)"

text \<open>
  \<open>applyLegacyModelBounds(settings)\<close>, on the settings \<open>loadSettings\<close> passes: an object
  whose \<open>providerSettings\<close> is the object \<open>mergeProviderSettings\<close> built.
\<close>

definition applyLegacyModelBounds :: "settings \<Rightarrow> js_error + settings" where
  "applyLegacyModelBounds settings =
     (case map_of settings ''providerSettings'' of
        Some (Json (JObject ps)) \<Rightarrow>
          (let claude = own_entries (or_empty (map_of ps ''claude'')) in
           case apply_bounds (map_of settings ''maxModel'') (map_of settings ''minModel'') claude of
             Inl e \<Rightarrow> Inl e
           | Inr claude' \<Rightarrow>
               Inr (assign settings ''providerSettings''
                      (Json (JObject (assign ps ''claude'' (JObject claude'))))))
      | _ \<Rightarrow> Inr settings)"

definition normalizeLoadedSettings :: "string_methods \<Rightarrow> json \<Rightarrow> js_error + settings" where
  "normalizeLoadedSettings js parsed =
     (if parsed = JNull then Inl TypeError
      else
        (let normalized = settings_of (spread [] (Some parsed));
             n1 = (if truthy_opt (get_prop parsed ''defaultProvider'')
                   then assign normalized ''defaultProvider''
                          (normalizeProviderName js (Json (the (get_prop parsed ''defaultProvider''))))
                   else normalized);
             n2 = (if truthy_opt (get_prop parsed ''providerSettings'')
                   then assign n1 ''providerSettings''
                          (normalizeProviderSettings js (the (get_prop parsed ''providerSettings'')))
                   else n1)
         in Inr n2))"

text \<open>
  The settings file: absent, present but unreadable, or present with its text.
  \<open>parse\<close> is \<open>JSON.parse\<close>, \<open>None\<close> when it throws.
\<close>

datatype settings_file = NoFile | UnreadableFile | FileText string

text \<open>
  The object \<open>merged\<close> of \<open>loadSettings\<close> before \<open>applyLegacyModelBounds\<close>: the
  normalized parsed settings spread over the defaults, then the provider and the provider
  settings set.
\<close>

definition merge_with_defaults :: "string_methods \<Rightarrow> settings \<Rightarrow> settings" where
  "merge_with_defaults js parsed =
     (let merged = assign_all (settings_of DEFAULT_SETTINGS) parsed;
          provider = normalizeProviderName js (the (map_of merged ''defaultProvider''));
          merged1 = assign merged ''defaultProvider''
                      (if truthy_value provider then provider else Json (JString ''claude''))
      in assign merged1 ''providerSettings''
           (Json (JObject (mergeProviderSettings
              (own_entries (map_of DEFAULT_SETTINGS ''providerSettings''))
              (map_of parsed ''providerSettings'')))))"

definition load_from_text ::
  "string_methods \<Rightarrow> (string \<Rightarrow> json option) \<Rightarrow> string \<Rightarrow> js_error + settings" where
  "load_from_text js parse text =
     (case parse text of
        None \<Rightarrow> Inl SyntaxError
      | Some v \<Rightarrow>
          (case normalizeLoadedSettings js v of
             Inl e \<Rightarrow> Inl e
           | Inr parsed \<Rightarrow> applyLegacyModelBounds (merge_with_defaults js parsed)))"

text \<open>
  \<open>loadSettings()\<close>: \<open>Inr\<close> of the settings it returns; an error it threw would be
  \<open>Inl\<close>. Every error of the \<open>try\<close> block is caught.
\<close>

definition loadSettings ::
  "string_methods \<Rightarrow> (string \<Rightarrow> json option) \<Rightarrow> settings_file \<Rightarrow> js_error + settings" where
  "loadSettings js parse file =
     (case file of
        NoFile \<Rightarrow> Inr (settings_of DEFAULT_SETTINGS)
      | UnreadableFile \<Rightarrow> Inr (settings_of DEFAULT_SETTINGS)
      | FileText text \<Rightarrow>
          (case load_from_text js parse text of
             Inl e \<Rightarrow> Inr (settings_of DEFAULT_SETTINGS)
           | Inr settings \<Rightarrow> Inr settings))"

text \<open>\<open>v.a.b\<close> on own properties, \<open>None\<close> when a step is \<open>undefined\<close>.\<close>

fun get_path :: "json \<Rightarrow> string list \<Rightarrow> json option" where
  "get_path v [] = Some v"
| "get_path v (k # ks) = (case get_prop v k of None \<Rightarrow> None | Some x \<Rightarrow> get_path x ks)"

text \<open>
  The rank of a level name, and \<open>settings.providerSettings[provider][key]\<close> in loaded
  settings.
\<close>

definition level_number :: "string \<Rightarrow> nat" where
  "level_number l = (case map_of LEVEL_RANKS l of Some r \<Rightarrow> r | None \<Rightarrow> 0)"

definition provider_setting :: "settings \<Rightarrow> string \<Rightarrow> string \<Rightarrow> json option" where
  "provider_setting settings provider key =
     (case map_of settings ''providerSettings'' of
        Some (Json ps) \<Rightarrow> get_path ps [provider, key]
      | _ \<Rightarrow> None)"


section \<open>Properties of the model ceiling and floor\<close>















section \<open>Properties of the string methods\<close>

lemma of_char_upper:
  "(of_char (ascii_upper_char c) :: nat) =
     (if 97 \<le> (of_char c :: nat) \<and> (of_char c :: nat) \<le> 122 then of_char c - 32 else of_char c)"
  by (auto simp add: ascii_upper_char_def Let_def)

lemma ascii_upper_char_idem: "ascii_upper_char (ascii_upper_char c) = ascii_upper_char c"
proof -
  have "(of_char (ascii_upper_char (ascii_upper_char c)) :: nat) = of_char (ascii_upper_char c)"
    by (auto simp add: of_char_upper)
  then show ?thesis by (simp only: of_char_eq_iff)
qed

lemma ascii_upper_idem: "map ascii_upper_char (map ascii_upper_char s) = map ascii_upper_char s"
  by (simp add: ascii_upper_char_idem)

lemma char_eq_nat: "(c = d) = ((of_char c :: nat) = of_char d)"
  by (simp only: of_char_eq_iff)

lemma is_space_nat: "is_space c = ((of_char c :: nat) \<in> {9, 10, 11, 12, 13, 32})"
  unfolding is_space_def by (simp add: char_eq_nat[of c])

lemma is_space_upper: "is_space (ascii_upper_char c) = is_space c"
  by (auto simp add: is_space_nat of_char_upper)

lemma dropWhile_space_upper:
  "dropWhile is_space (map ascii_upper_char s) = map ascii_upper_char (dropWhile is_space s)"
  by (induction s) (auto simp: is_space_upper)

lemma ascii_trim_upper: "ascii_trim (map ascii_upper_char s) = map ascii_upper_char (ascii_trim s)"
  unfolding ascii_trim_def by (simp add: dropWhile_space_upper rev_map)

lemma dropWhile_idem: "dropWhile P (dropWhile P s) = dropWhile P s"
  by (induction s) auto

lemma dropWhile_hd_id: "l = [] \<or> \<not> P (hd l) \<Longrightarrow> dropWhile P l = l"
  by (cases l) auto

lemma dropWhile_hd: "dropWhile P l = [] \<or> \<not> P (hd (dropWhile P l))"
  using hd_dropWhile by blast

lemma ascii_trim_idem: "ascii_trim (ascii_trim s) = ascii_trim s"
proof -
  let ?a = "dropWhile is_space s"
  let ?b = "dropWhile is_space (rev ?a)"
  have a: "?a = [] \<or> \<not> is_space (hd ?a)" by (rule dropWhile_hd)
  have "rev ?a = takeWhile is_space (rev ?a) @ ?b" by simp
  then have "rev (rev ?a) = rev (takeWhile is_space (rev ?a) @ ?b)" by (rule arg_cong)
  then have eq: "?a = rev ?b @ rev (takeWhile is_space (rev ?a))" by (simp only: rev_rev_ident rev_append)
  have "rev ?b = [] \<or> \<not> is_space (hd (rev ?b))"
  proof (cases "rev ?b = []")
    case True
    then show ?thesis by blast
  next
    case False
    then have "hd ?a = hd (rev ?b)" using eq by (metis hd_append2)
    moreover have "?a \<noteq> []" using eq False by (metis append_is_Nil_conv)
    ultimately show ?thesis using a by metis
  qed
  then have 1: "dropWhile is_space (rev ?b) = rev ?b" by (rule dropWhile_hd_id)
  have 2: "dropWhile is_space (rev (rev ?b)) = ?b" by (simp only: rev_rev_ident dropWhile_idem)
  show ?thesis unfolding ascii_trim_def by (simp only: 1 2)
qed

lemma set_ascii_trim: "set (ascii_trim s) \<subseteq> set s"
proof
  fix x assume "x \<in> set (ascii_trim s)"
  then have "x \<in> set (dropWhile is_space (rev (dropWhile is_space s)))" by (simp add: ascii_trim_def)
  then have "x \<in> set (rev (dropWhile is_space s))" by (rule set_dropWhileD)
  then have "x \<in> set (dropWhile is_space s)" by simp
  then show "x \<in> set s" by (rule set_dropWhileD)
qed

lemma split_no_sep: "p \<in> set (split c s) \<Longrightarrow> c \<notin> set p"
  by (induction s arbitrary: p) (auto split: if_splits list.splits)

lemma ascii_upper_char_pipe: "ascii_upper_char c = CHR ''|'' \<Longrightarrow> c = CHR ''|''"
proof -
  assume a: "ascii_upper_char c = CHR ''|''"
  then have "(of_char (ascii_upper_char c) :: nat) = 124" by simp
  then have "(of_char c :: nat) = 124" by (auto simp: of_char_upper split: if_splits)
  then have "(of_char c :: nat) = of_char CHR ''|''" by simp
  then show ?thesis by (simp only: of_char_eq_iff)
qed

lemma ascii_upper_no_pipe: "CHR ''|'' \<notin> set s \<Longrightarrow> CHR ''|'' \<notin> set (map ascii_upper_char s)"
proof
  assume n: "CHR ''|'' \<notin> set s" and "CHR ''|'' \<in> set (map ascii_upper_char s)"
  then obtain c where c: "c \<in> set s" "ascii_upper_char c = CHR ''|''" by auto
  then have "c = CHR ''|''" using ascii_upper_char_pipe by blast
  then show False using n c(1) by simp
qed

lemma ascii_capitals:
  "\<forall>c \<in> set ''ABCDEFGHIJKLMNOPQRSTUVWXYZ''. ascii_upper_char c = c \<and> \<not> is_space c"
  by code_simp

lemma ascii_trim_no_space: "\<forall>c \<in> set s. \<not> is_space c \<Longrightarrow> ascii_trim s = s"
proof -
  assume a: "\<forall>c \<in> set s. \<not> is_space c"
  have 1: "dropWhile is_space s = s" by (rule dropWhile_hd_id) (use a in \<open>cases s; simp\<close>)
  have "\<forall>c \<in> set (rev s). \<not> is_space c" using a by simp
  then have 2: "dropWhile is_space (rev s) = rev s"
    by (intro dropWhile_hd_id) (cases "rev s"; simp)
  show ?thesis unfolding ascii_trim_def by (simp only: 1 2 rev_rev_ident)
qed

lemma ascii_methods_simps:
  "toUpperCase ascii_methods = map ascii_upper_char"
  "toLowerCase ascii_methods = map ascii_lower_char"
  "trim ascii_methods = ascii_trim"
  by (simp_all add: ascii_methods_def)

lemma ascii_methods_laws: "string_method_laws ascii_methods"
proof -
  have 4: "map ascii_upper_char (a @ CHR ''|'' # b)
      = map ascii_upper_char a @ CHR ''|'' # map ascii_upper_char b" for a b
    by (simp add: ascii_upper_char_def)
  have 6: "CHR ''|'' \<notin> set s \<Longrightarrow> CHR ''|'' \<notin> set (ascii_trim s)" for s
    using set_ascii_trim by blast
  have 7: "map ascii_upper_char s = s \<and> ascii_trim s = s"
    if "set s \<subseteq> set ''ABCDEFGHIJKLMNOPQRSTUVWXYZ''" for s
  proof -
    have c: "\<forall>c \<in> set s. ascii_upper_char c = c \<and> \<not> is_space c"
      using that ascii_capitals by blast
    then have "map ascii_upper_char s = s" by (simp add: map_idI)
    moreover have "ascii_trim s = s" using c by (intro ascii_trim_no_space) blast
    ultimately show ?thesis by blast
  qed
  show ?thesis
    unfolding string_method_laws_def ascii_methods_simps
    using ascii_upper_idem ascii_trim_idem ascii_trim_upper 4 ascii_upper_no_pipe 6 7
    by (intro conjI allI impI) blast+
qed

section \<open>Consequences of the laws of the string methods\<close>

lemma upper_idem: "string_method_laws js \<Longrightarrow> toUpperCase js (toUpperCase js s) = toUpperCase js s"
  by (simp add: string_method_laws_def)

lemma trim_idem: "string_method_laws js \<Longrightarrow> trim js (trim js s) = trim js s"
  by (simp add: string_method_laws_def)

lemma trim_upper: "string_method_laws js \<Longrightarrow> trim js (toUpperCase js s) = toUpperCase js (trim js s)"
  by (simp add: string_method_laws_def)

lemma upper_pipe:
  "string_method_laws js \<Longrightarrow>
     toUpperCase js (a @ CHR ''|'' # b) = toUpperCase js a @ CHR ''|'' # toUpperCase js b"
  by (simp add: string_method_laws_def)

lemma upper_no_pipe:
  "string_method_laws js \<Longrightarrow> CHR ''|'' \<notin> set s \<Longrightarrow> CHR ''|'' \<notin> set (toUpperCase js s)"
  by (simp add: string_method_laws_def)

lemma trim_no_pipe:
  "string_method_laws js \<Longrightarrow> CHR ''|'' \<notin> set s \<Longrightarrow> CHR ''|'' \<notin> set (trim js s)"
  by (simp add: string_method_laws_def)

lemma capitals_fixed:
  "string_method_laws js \<Longrightarrow> set s \<subseteq> set ''ABCDEFGHIJKLMNOPQRSTUVWXYZ''
     \<Longrightarrow> toUpperCase js s = s \<and> trim js s = s"
  by (simp add: string_method_laws_def)

lemma upper_nil: "string_method_laws js \<Longrightarrow> toUpperCase js [] = []"
  using capitals_fixed[of js "[]"] by simp

lemma split_at_sep: "c \<notin> set a \<Longrightarrow> split c (a @ c # b) = a # split c b"
  by (induction a) auto

lemma split_no_sep_single: "c \<notin> set s \<Longrightarrow> split c s = [s]"
  by (induction s) auto

lemma first_sep_unique:
  assumes "c \<notin> set a" "c \<notin> set a'" "a @ c # b = a' @ c # b'"
  shows "a = a' \<and> b = b'"
proof -
  have t: "takeWhile (\<lambda>x. x \<noteq> c) (xs @ c # ys) = xs" if "c \<notin> set xs" for xs ys
    using that by (induction xs) auto
  have "takeWhile (\<lambda>x. x \<noteq> c) (a @ c # b) = a" using assms(1) by (rule t)
  moreover have "takeWhile (\<lambda>x. x \<noteq> c) (a' @ c # b') = a'" using assms(2) by (rule t)
  ultimately have "a = a'" using assms(3) by simp
  then show ?thesis using assms(3) by simp
qed

lemma upper_fixed_parts:
  assumes laws: "string_method_laws js"
  shows "toUpperCase js v = v \<Longrightarrow> p \<in> set (split CHR ''|'' v) \<Longrightarrow> toUpperCase js p = p"
proof (induction "length v" arbitrary: v rule: less_induct)
  case less
  show ?case
  proof (cases "CHR ''|'' \<in> set v")
    case False
    then have "p = v" using less.prems(2) by (simp add: split_no_sep_single)
    then show ?thesis using less.prems(1) by simp
  next
    case True
    then obtain a b where ab: "v = a @ CHR ''|'' # b" "CHR ''|'' \<notin> set a"
      using split_list_first[of "CHR ''|''" v] by blast
    have "toUpperCase js a @ CHR ''|'' # toUpperCase js b = a @ CHR ''|'' # b"
      using less.prems(1) upper_pipe[OF laws, of a b] ab(1) by simp
    moreover have "CHR ''|'' \<notin> set (toUpperCase js a)" using upper_no_pipe[OF laws ab(2)] .
    ultimately have fx: "toUpperCase js a = a" "toUpperCase js b = b"
      using first_sep_unique[OF _ ab(2)] by blast+
    have "split CHR ''|'' v = a # split CHR ''|'' b" using ab by (simp add: split_at_sep)
    then have "p = a \<or> p \<in> set (split CHR ''|'' b)" using less.prems(2) by simp
    then show ?thesis
    proof
      assume "p = a" then show ?thesis using fx(1) by simp
    next
      assume pb: "p \<in> set (split CHR ''|'' b)"
      have "length b < length v" using ab(1) by simp
      then show ?thesis using less.hyps[OF _ fx(2) pb] by blast
    qed
  qed
qed

section \<open>Properties of enum normalization\<close>

lemma trim_fixed_of_upper:
  "string_method_laws js \<Longrightarrow> toUpperCase js e = v \<Longrightarrow> trim js v = v
     \<Longrightarrow> toUpperCase js (trim js e) = v"
  using trim_upper by metis

lemma collapse_cases:
  "collapse_enum_list js en v = v \<or>
   (CHR ''|'' \<in> set v \<and> (\<exists>p \<in> set (split CHR ''|'' v).
       collapse_enum_list js en v = trim js p \<and> enum_includes en (trim js p) \<and> trim js p \<noteq> []))"
proof (cases "collapse_enum_list js en v = v")
  case True then show ?thesis by blast
next
  case False
  then have pipe: "CHR ''|'' \<in> set v" by (auto simp: collapse_enum_list_def split: if_splits)
  let ?parts = "map (trim js) (split CHR ''|'' v)"
  from False pipe obtain fv where fv: "find (enum_includes en) ?parts = Some fv" "fv \<noteq> []"
    "collapse_enum_list js en v = fv"
    by (auto simp: collapse_enum_list_def Let_def split: if_splits option.splits)
  from fv(1) have "fv \<in> set ?parts" "enum_includes en fv"
    by (auto simp: find_Some_iff)
  then show ?thesis using pipe fv by auto
qed

lemma collapse_no_pipe: "CHR ''|'' \<notin> set v \<Longrightarrow> collapse_enum_list js en v = v"
  by (simp add: collapse_enum_list_def)

lemma trim_part_no_pipe:
  "string_method_laws js \<Longrightarrow> p \<in> set (split CHR ''|'' v) \<Longrightarrow> CHR ''|'' \<notin> set (trim js p)"
  using split_no_sep trim_no_pipe by blast

lemma collapse_idem:
  assumes laws: "string_method_laws js"
  shows "collapse_enum_list js en (collapse_enum_list js en v) = collapse_enum_list js en v"
proof -
  from collapse_cases[of js en v] show ?thesis
  proof
    assume "collapse_enum_list js en v = v"
    then show ?thesis by simp
  next
    assume "CHR ''|'' \<in> set v \<and> (\<exists>p \<in> set (split CHR ''|'' v).
       collapse_enum_list js en v = trim js p \<and> enum_includes en (trim js p) \<and> trim js p \<noteq> [])"
    then obtain p where p: "p \<in> set (split CHR ''|'' v)" "collapse_enum_list js en v = trim js p"
      by blast
    show ?thesis using collapse_no_pipe[OF trim_part_no_pipe[OF laws p(1)]] p(2) by simp
  qed
qed

lemma collapse_trim:
  assumes laws: "string_method_laws js" and "trim js v = v"
  shows "trim js (collapse_enum_list js en v) = collapse_enum_list js en v"
proof -
  from collapse_cases[of js en v] show ?thesis
  proof
    assume "collapse_enum_list js en v = v"
    then show ?thesis using assms by simp
  next
    assume "CHR ''|'' \<in> set v \<and> (\<exists>p \<in> set (split CHR ''|'' v).
       collapse_enum_list js en v = trim js p \<and> enum_includes en (trim js p) \<and> trim js p \<noteq> [])"
    then obtain p where p: "collapse_enum_list js en v = trim js p" by blast
    show ?thesis by (simp add: p trim_idem[OF laws])
  qed
qed

lemma collapse_upper:
  assumes laws: "string_method_laws js" and "toUpperCase js v = v"
  shows "toUpperCase js (collapse_enum_list js en v) = collapse_enum_list js en v"
proof -
  from collapse_cases[of js en v] show ?thesis
  proof
    assume "collapse_enum_list js en v = v"
    then show ?thesis using assms by simp
  next
    assume "CHR ''|'' \<in> set v \<and> (\<exists>p \<in> set (split CHR ''|'' v).
       collapse_enum_list js en v = trim js p \<and> enum_includes en (trim js p) \<and> trim js p \<noteq> [])"
    then obtain p where p: "p \<in> set (split CHR ''|'' v)" "collapse_enum_list js en v = trim js p"
      by blast
    have "toUpperCase js p = p" using upper_fixed_parts[OF laws assms(2) p(1)] .
    then have "toUpperCase js (trim js p) = trim js p" using trim_upper[OF laws, of p] by simp
    then show ?thesis using p(2) by simp
  qed
qed

lemma find_match_Some:
  "find_match js en v = Some (Some e) \<Longrightarrow> toUpperCase js e = v \<and> JString e \<in> set en"
  by (induction js en v rule: find_match.induct) (auto split: if_splits)

lemma find_match_undefined:
  "find_match js en v = Some None \<Longrightarrow> \<forall>x \<in> set en. \<exists>e. x = JString e \<and> toUpperCase js e \<noteq> v"
  by (induction js en v rule: find_match.induct) (auto split: if_splits)

lemma find_match_find:
  assumes "\<forall>x \<in> set en. \<exists>e. x = JString e"
    "find (\<lambda>e. case e of JString a \<Rightarrow> toUpperCase js a = v | _ \<Rightarrow> False) en = Some (JString w)"
  shows "find_match js en v = Some (Some w)"
  using assms
proof (induction en)
  case Nil
  then show ?case by simp
next
  case (Cons x xs)
  then obtain e where e: "x = JString e" by auto
  show ?case
  proof (cases "toUpperCase js e = v")
    case True
    then show ?thesis using Cons.prems(2) e by simp
  next
    case False
    then have "find (\<lambda>e. case e of JString a \<Rightarrow> toUpperCase js a = v | _ \<Rightarrow> False) xs = Some (JString w)"
      using Cons.prems(2) e by simp
    then have "find_match js xs v = Some (Some w)" using Cons.IH Cons.prems(1) by simp
    then show ?thesis using e False by simp
  qed
qed

lemma variations_values:
  assumes laws: "string_method_laws js" and "map_of variations v = Some w"
  shows "toUpperCase js w = w \<and> trim js w = w \<and> CHR ''|'' \<notin> set w \<and> w \<noteq> []
         \<and> w \<in> set (map snd variations)"
proof -
  have in_table: "w \<in> set (map snd variations)"
    using assms(2) by (metis map_of_SomeD image_eqI snd_conv set_map)
  then have "w \<in> set [''DEBUG'', ''TASK'', ''INQUIRY'', ''TRIVIAL'', ''SIMPLE'', ''STANDARD'', ''CRITICAL'']"
    by (auto simp: variations_def)
  moreover have "\<forall>w \<in> set [''DEBUG'', ''TASK'', ''INQUIRY'', ''TRIVIAL'', ''SIMPLE'', ''STANDARD'', ''CRITICAL''].
     set w \<subseteq> set ''ABCDEFGHIJKLMNOPQRSTUVWXYZ'' \<and> CHR ''|'' \<notin> set w \<and> w \<noteq> []"
    by code_simp
  ultimately have "set w \<subseteq> set ''ABCDEFGHIJKLMNOPQRSTUVWXYZ''" "CHR ''|'' \<notin> set w" "w \<noteq> []"
    by blast+
  then show ?thesis using capitals_fixed[OF laws, of w] in_table by blast
qed

lemma variations_empty: "map_of variations [] = None"
  by (simp add: variations_def)

lemma normalize_string_idem:
  assumes laws: "string_method_laws js"
    and first: "variation_targets_first js en"
    and ns: "normalize_string js en s = Some (Some y, c)"
  shows "normalize_string js en y = Some (Some y, True)"
proof -
  let ?v = "collapse_enum_list js en (toUpperCase js (trim js s))"
  have v0: "toUpperCase js (toUpperCase js (trim js s)) = toUpperCase js (trim js s)"
    by (rule upper_idem[OF laws])
  have v0t: "trim js (toUpperCase js (trim js s)) = toUpperCase js (trim js s)"
    by (simp add: trim_upper[OF laws] trim_idem[OF laws])
  have vt: "trim js ?v = ?v" using collapse_trim[OF laws v0t] .
  have vc: "collapse_enum_list js en ?v = ?v" by (rule collapse_idem[OF laws])
  obtain m where m: "find_match js en ?v = Some m"
    using ns by (auto simp: normalize_string_def Let_def split: option.splits)
  show ?thesis
  proof (cases "truthy_str m")
    case True
    then have ym: "m = Some y" "y \<noteq> []" using ns m
      by (auto simp: normalize_string_def Let_def split: option.splits)
    then have "toUpperCase js y = ?v" using m find_match_Some by blast
    then have "toUpperCase js (trim js y) = ?v" using vt by (rule trim_fixed_of_upper[OF laws])
    then show ?thesis using vc m ym by (simp add: normalize_string_def)
  next
    case False
    then have w: "map_of variations ?v = Some y" "enum_includes en y"
      using ns m by (auto simp: normalize_string_def Let_def split: option.splits if_splits)
    have "m = None"
    proof (cases m)
      case None then show ?thesis .
    next
      case (Some e)
      then have "e = []" using False by simp
      then have "?v = []" using m Some find_match_Some[of js en ?v e] by (simp add: upper_nil[OF laws])
      then show ?thesis using w(1) variations_empty by simp
    qed
    then have all: "\<forall>x \<in> set en. \<exists>e. x = JString e" using m find_match_undefined by blast
    note yv = variations_values[OF laws w(1)]
    have yin: "JString y \<in> set en" using w(2) by (simp add: enum_includes_def)
    have "find (\<lambda>e. case e of JString a \<Rightarrow> toUpperCase js a = y | _ \<Rightarrow> False) en = Some (JString y)"
      using first yin yv unfolding variation_targets_first_def by blast
    then have fm: "find_match js en y = Some (Some y)" by (rule find_match_find[OF all])
    have "toUpperCase js (trim js y) = y" using yv by simp
    moreover have "collapse_enum_list js en y = y" using yv collapse_no_pipe by blast
    ultimately show ?thesis using fm yv by (simp add: normalize_string_def)
  qed
qed

lemma index_of_key_Some: "index_of_key k n = Some i \<Longrightarrow> i < n \<and> string_of_nat i = k"
  unfolding index_of_key_def by (auto simp: find_Some_iff)

lemma index_of_key_neq:
  "k \<noteq> k' \<Longrightarrow> index_of_key k n = Some i \<Longrightarrow> index_of_key k' n = Some j \<Longrightarrow> i = j \<Longrightarrow> False"
proof -
  assume a: "k \<noteq> k'" "index_of_key k n = Some i" "index_of_key k' n = Some j" "i = j"
  have "string_of_nat i = k" using index_of_key_Some[OF a(2)] by simp
  moreover have "string_of_nat j = k'" using index_of_key_Some[OF a(3)] by simp
  ultimately show False using a(1,4) by simp
qed

lemma map_of_overwrite_same: "map_of kvs k \<noteq> None \<Longrightarrow> map_of (overwrite k x kvs) k = Some x"
  by (induction kvs) auto

lemma map_of_overwrite_other: "k' \<noteq> k \<Longrightarrow> map_of (overwrite k x kvs) k' = map_of kvs k'"
  by (induction kvs) auto

lemma overwrite_twice: "overwrite k y (overwrite k x kvs) = overwrite k y kvs"
  by (induction kvs) auto

lemma overwrite_swap:
  "k \<noteq> k' \<Longrightarrow> overwrite k' y (overwrite k x kvs) = overwrite k x (overwrite k' y kvs)"
  by (induction kvs) auto

lemma overwrite_same: "map_of kvs k = Some v \<Longrightarrow> overwrite k v kvs = kvs"
  by (induction kvs) (auto split: if_splits)

lemma get_put_same: "get_prop r k = Some old \<Longrightarrow> get_prop (put_prop r k x) k = Some x"
proof (cases r)
  case (JObject kvs)
  assume "get_prop r k = Some old"
  then show ?thesis using JObject by (simp add: map_of_overwrite_same)
next
  case (JArray xs)
  assume "get_prop r k = Some old"
  then obtain i where i: "index_of_key k (length xs) = Some i" using JArray by (auto split: option.splits)
  then have "i < length xs" using index_of_key_Some by blast
  then show ?thesis using JArray i by simp
qed auto

lemma get_put_other: "k' \<noteq> k \<Longrightarrow> get_prop (put_prop r k x) k' = get_prop r k'"
proof (cases r)
  case (JObject kvs)
  assume "k' \<noteq> k"
  then show ?thesis using JObject by (simp add: map_of_overwrite_other)
next
  case (JArray xs)
  assume n: "k' \<noteq> k"
  show ?thesis
  proof (cases "index_of_key k (length xs)")
    case None
    then show ?thesis using JArray by simp
  next
    case (Some i)
    show ?thesis
    proof (cases "index_of_key k' (length xs)")
      case None
      then show ?thesis using JArray Some by simp
    next
      case (Some j)
      then have "i \<noteq> j" using index_of_key_neq[OF n[symmetric] \<open>index_of_key k (length xs) = Some i\<close> Some] by blast
      then show ?thesis using JArray Some \<open>index_of_key k (length xs) = Some i\<close> by simp
    qed
  qed
qed auto

lemma put_put_same: "put_prop (put_prop r k x) k y = put_prop r k y"
  by (cases r) (auto simp: overwrite_twice split: option.splits)

lemma put_put_swap:
  assumes "k \<noteq> k'"
  shows "put_prop (put_prop r k x) k' y = put_prop (put_prop r k' y) k x"
proof (cases r)
  case (JObject kvs)
  then show ?thesis using assms by (simp add: overwrite_swap)
next
  case (JArray xs)
  show ?thesis
  proof (cases "index_of_key k (length xs)")
    case None
    then show ?thesis using JArray by (simp split: option.splits)
  next
    case (Some i)
    show ?thesis
    proof (cases "index_of_key k' (length xs)")
      case None
      then show ?thesis using JArray Some by simp
    next
      case (Some j)
      then have "i \<noteq> j" using index_of_key_neq[OF assms \<open>index_of_key k (length xs) = Some i\<close> Some] by blast
      then show ?thesis using JArray Some \<open>index_of_key k (length xs) = Some i\<close>
        by (simp add: list_update_swap)
    qed
  qed
qed auto

lemma put_get_same: "get_prop r k = Some v \<Longrightarrow> put_prop r k v = r"
proof (cases r)
  case (JObject kvs)
  assume "get_prop r k = Some v"
  then show ?thesis using JObject by (simp add: overwrite_same)
next
  case (JArray xs)
  assume "get_prop r k = Some v"
  then show ?thesis using JArray by (auto split: option.splits)
qed auto

lemma put_kind:
  "truthy (put_prop r k x) = truthy r" "typeof_object (put_prop r k x) = typeof_object r"
  by (cases r; simp split: option.splits)+

lemma nev_passthrough:
  "\<not> truthy v \<or> \<not> typeof_object v \<Longrightarrow> normalizeEnumValues js v S = Some v"
  by (cases S) (auto split: option.splits)

lemma nev_string: "normalizeEnumValues js (JString s) S = Some (JString s)"
  by (rule nev_passthrough) simp

lemma prop_step_parts:
  "prop_step js key P r =
    (case enum_part js r key (schema_enum P) of
       None \<Rightarrow> None
     | Some (r1, c) \<Rightarrow>
         if c then Some r1
         else (case object_part js r1 key P of
                 None \<Rightarrow> None
               | Some r2 \<Rightarrow> array_part js r2 key P))"
  by (cases P) (simp add: prop_step_def object_part_def array_part_def
        split: option.splits prod.splits bool.splits)

lemma normalizeProperties_parts:
  "normalizeProperties js r ((key, P) # rest) =
    (case enum_part js r key (schema_enum P) of
       None \<Rightarrow> None
     | Some (r1, c) \<Rightarrow>
         if c then normalizeProperties js r1 rest
         else (case object_part js r1 key P of
                 None \<Rightarrow> None
               | Some r2 \<Rightarrow>
                  (case array_part js r2 key P of
                     None \<Rightarrow> None
                   | Some r3 \<Rightarrow> normalizeProperties js r3 rest)))"
  by (cases P) (simp add: object_part_def array_part_def
        split: option.splits prod.splits bool.splits)

lemma normalizeProperties_Cons:
  "normalizeProperties js r ((key, P) # rest) =
     (case prop_step js key P r of None \<Rightarrow> None | Some r' \<Rightarrow> normalizeProperties js r' rest)"
  by (simp add: normalizeProperties_parts prop_step_parts split: option.splits prod.splits)

lemma object_part_string:
  "get_prop r key = Some (JString s) \<Longrightarrow> object_part js r key P = Some r"
  by (simp add: object_part_def nev_string put_get_same)

lemma array_part_not_array:
  "(\<And>xs. get_prop r key \<noteq> Some (JArray xs)) \<Longrightarrow> array_part js r key P = Some r"
  by (auto simp add: array_part_def split: option.splits schema.splits json.splits)

lemma array_part_not_type:
  "schema_type P \<noteq> Some ''array'' \<Longrightarrow> array_part js r key P = Some r"
  by (auto simp add: array_part_def split: option.splits schema.splits json.splits)

lemma prop_step_value:
  "prop_step js key P r = apply_value r key (prop_value js P (get_prop r key))"
proof (cases "get_prop r key")
  case None
  then have "enum_part js r key (schema_enum P) = Some (r, False)"
    by (simp add: enum_part_def split: option.splits)
  moreover have "object_part js r key P = Some r" using None by (simp add: object_part_def)
  moreover have "array_part js r key P = Some r" using None by (simp add: array_part_not_array)
  ultimately show ?thesis using None
    by (simp add: prop_step_parts prop_value_def apply_value_def)
next
  case (Some v)
  show ?thesis
  proof (cases "\<exists>s. v = JString s")
    case True
    then obtain s where s: "v = JString s" by blast
    have g: "\<And>s'. get_prop (put_prop r key (JString s')) key = Some (JString s')"
      using get_put_same[OF Some] .
    have o: "\<And>r1 s'. get_prop r1 key = Some (JString s') \<Longrightarrow>
        (case object_part js r1 key P of None \<Rightarrow> None | Some r2 \<Rightarrow> array_part js r2 key P) = Some r1"
      by (simp add: object_part_string array_part_not_array)
    show ?thesis
    proof (cases "schema_enum P")
      case None
      then have "enum_part js r key (schema_enum P) = Some (r, False)"
        by (simp add: enum_part_def)
      then show ?thesis using None Some s o[of r s]
        by (simp add: prop_step_parts prop_value_def apply_value_def)
    next
      case en: (Some en)
      show ?thesis
      proof (cases "normalize_string js en s")
        case None
        then show ?thesis using en Some s
          by (simp add: prop_step_parts prop_value_def apply_value_def enum_part_def)
      next
        case ns: (Some a)
        obtain m c where a: "a = (m, c)" by (cases a)
        show ?thesis
        proof (cases m)
          case None
          then show ?thesis using en Some s ns a o[of r s]
            by (simp add: prop_step_parts prop_value_def apply_value_def enum_part_def)
        next
          case m: (Some s')
          then show ?thesis using en Some s ns a o[OF g[of s']]
            by (simp add: prop_step_parts prop_value_def apply_value_def enum_part_def)
        qed
      qed
    qed
  next
    case False
    then have e: "enum_part js r key (schema_enum P) = Some (r, False)"
      using Some by (cases "schema_enum P"; cases v; simp add: enum_part_def)
    show ?thesis
    proof (cases "schema_type P = Some ''object'' \<and> schema_properties P \<noteq> None \<and> truthy v")
      case True
      then have na: "\<And>r'. array_part js r' key P = Some r'" by (simp add: array_part_not_type)
      have pv: "prop_value js P (Some v) =
          (case normalizeEnumValues js v P of None \<Rightarrow> None | Some y \<Rightarrow> Some (Some y))"
        using True False by (cases v; simp add: prop_value_def)
      show ?thesis using True Some e
        by (simp add: prop_step_parts object_part_def na pv apply_value_def split: option.splits)
    next
      case nobj: False
      then have o: "object_part js r key P = Some r" using Some by (auto simp add: object_part_def)
      have pv: "prop_value js P (Some v) =
          (case (schema_type P, schema_items P, v) of
                (Some t, Some (Schema ity ienum (Some iprops) iits), JArray xs) \<Rightarrow>
                  if t = ''array'' then
                    (case normalizeItems js xs (Schema ity ienum (Some iprops) iits) of
                       None \<Rightarrow> None
                     | Some ys \<Rightarrow> Some (Some (JArray ys)))
                  else Some None
              | _ \<Rightarrow> Some None)"
        using nobj False by (cases v; auto simp add: prop_value_def)
      show ?thesis using Some e o
        by (simp add: prop_step_parts pv array_part_def apply_value_def
            split: option.splits schema.splits json.splits)
    qed
  qed
qed

lemma normalizeProperties_bind:
  "normalizeProperties js r ((key, P) # rest) =
     Option.bind (prop_step js key P r) (\<lambda>r'. normalizeProperties js r' rest)"
  by (simp add: normalizeProperties_Cons split: option.splits)

lemma prop_step_commute:
  assumes "k \<noteq> k'"
  shows "Option.bind (prop_step js k P r) (prop_step js k' P') =
         Option.bind (prop_step js k' P' r) (prop_step js k P)"
proof -
  have 1: "\<And>x. get_prop (put_prop r k x) k' = get_prop r k'"
    by (rule get_put_other) (use assms in simp)
  have 2: "\<And>x. get_prop (put_prop r k' x) k = get_prop r k"
    by (rule get_put_other) (use assms in simp)
  have 3: "\<And>x y. put_prop (put_prop r k x) k' y = put_prop (put_prop r k' y) k x"
    by (rule put_put_swap[OF assms])
  show ?thesis
  proof (cases "prop_value js P (get_prop r k)")
    case None
    then show ?thesis
      by (cases "prop_value js P' (get_prop r k')")
         (simp_all add: prop_step_value apply_value_def 2 split: option.splits)
  next
    case n: (Some n)
    show ?thesis
    proof (cases "prop_value js P' (get_prop r k')")
      case None
      then show ?thesis using n
        by (simp add: prop_step_value apply_value_def 1 split: option.splits)
    next
      case (Some n')
      then show ?thesis using n
        by (simp add: prop_step_value apply_value_def 1 2 3 split: option.splits)
    qed
  qed
qed

lemma step_props_commute:
  assumes "k \<notin> fst ` set ps"
  shows "Option.bind (prop_step js k P r) (\<lambda>r'. normalizeProperties js r' ps) =
         Option.bind (normalizeProperties js r ps) (prop_step js k P)"
  using assms
proof (induction ps arbitrary: r)
  case Nil
  then show ?case by simp
next
  case (Cons a ps)
  obtain k' P' where a: "a = (k', P')" by (cases a)
  have ne: "k \<noteq> k'" and notin: "k \<notin> fst ` set ps" using Cons.prems a by auto
  have "Option.bind (normalizeProperties js r (a # ps)) (prop_step js k P) =
        Option.bind (prop_step js k' P' r) (\<lambda>r1. Option.bind (normalizeProperties js r1 ps) (prop_step js k P))"
    by (simp add: a normalizeProperties_bind)
  also have "\<dots> = Option.bind (prop_step js k' P' r)
        (\<lambda>r1. Option.bind (prop_step js k P r1) (\<lambda>r2. normalizeProperties js r2 ps))"
    using Cons.IH[OF notin] by simp
  also have "\<dots> = Option.bind (Option.bind (prop_step js k' P' r) (prop_step js k P))
        (\<lambda>r2. normalizeProperties js r2 ps)"
    by simp
  also have "\<dots> = Option.bind (Option.bind (prop_step js k P r) (prop_step js k' P'))
        (\<lambda>r2. normalizeProperties js r2 ps)"
    using prop_step_commute[OF ne] by simp
  also have "\<dots> = Option.bind (prop_step js k P r) (\<lambda>r1. normalizeProperties js r1 (a # ps))"
    by (simp add: a normalizeProperties_bind)
  finally show ?case by simp
qed

lemma props_idem:
  assumes "distinct (map fst ps)"
    and "\<forall>(k, P) \<in> set ps. \<forall>r r'. prop_step js k P r = Some r' \<longrightarrow> prop_step js k P r' = Some r'"
    and "normalizeProperties js r ps = Some r'"
  shows "normalizeProperties js r' ps = Some r'"
  using assms
proof (induction ps arbitrary: r r')
  case Nil
  then show ?case by simp
next
  case (Cons a ps)
  obtain k P where a: "a = (k, P)" by (cases a)
  have notin: "k \<notin> fst ` set ps" and d: "distinct (map fst ps)" using Cons.prems(1) a by auto
  have st: "\<forall>r r'. prop_step js k P r = Some r' \<longrightarrow> prop_step js k P r' = Some r'"
    using Cons.prems(2) a by auto
  have rest: "\<forall>(k, P) \<in> set ps. \<forall>r r'. prop_step js k P r = Some r' \<longrightarrow> prop_step js k P r' = Some r'"
    using Cons.prems(2) by auto
  from Cons.prems(3) obtain r1 where r1: "prop_step js k P r = Some r1" "normalizeProperties js r1 ps = Some r'"
    by (auto simp: a normalizeProperties_bind split: Option.bind_splits)
  have "prop_step js k P r1 = Some r1" using st r1(1) by blast
  then have "Option.bind (prop_step js k P r1) (\<lambda>x. normalizeProperties js x ps) = Some r'"
    using r1(2) by simp
  then have "Option.bind (normalizeProperties js r1 ps) (prop_step js k P) = Some r'"
    using step_props_commute[OF notin] by simp
  then have s: "prop_step js k P r' = Some r'" using r1(2) by simp
  have "normalizeProperties js r' ps = Some r'" using Cons.IH[OF d rest r1(2)] .
  then show ?case using s by (simp add: a normalizeProperties_bind)
qed

lemma apply_value_kind:
  "apply_value r key n = Some r' \<Longrightarrow>
     r' = r \<or> (\<exists>a b. r = JObject a \<and> r' = JObject b) \<or> (\<exists>a b. r = JArray a \<and> r' = JArray b)"
  by (cases r) (auto simp: apply_value_def split: option.splits)

lemma normalizeProperties_kind:
  "normalizeProperties js r ps = Some r' \<Longrightarrow>
     r' = r \<or> (\<exists>a b. r = JObject a \<and> r' = JObject b) \<or> (\<exists>a b. r = JArray a \<and> r' = JArray b)"
proof (induction ps arbitrary: r)
  case Nil
  then show ?case by simp
next
  case (Cons a ps)
  obtain k P where a: "a = (k, P)" by (cases a)
  from Cons.prems obtain r1 where r1: "prop_step js k P r = Some r1" "normalizeProperties js r1 ps = Some r'"
    by (auto simp: a normalizeProperties_bind split: Option.bind_splits)
  from r1(1) have 1: "r1 = r \<or> (\<exists>a b. r = JObject a \<and> r1 = JObject b) \<or> (\<exists>a b. r = JArray a \<and> r1 = JArray b)"
    using apply_value_kind by (simp add: prop_step_value)
  from Cons.IH[OF r1(2)] have 2: "r' = r1 \<or> (\<exists>a b. r1 = JObject a \<and> r' = JObject b) \<or> (\<exists>a b. r1 = JArray a \<and> r' = JArray b)" .
  from 1 2 show ?case by auto
qed

lemma normalizeEnumValues_kind:
  "normalizeEnumValues js v S = Some v' \<Longrightarrow>
     v' = v \<or> (\<exists>a b. v = JObject a \<and> v' = JObject b) \<or> (\<exists>a b. v = JArray a \<and> v' = JArray b)"
  by (cases S) (auto split: option.splits if_splits dest: normalizeProperties_kind)

lemma normalizeItems_idem:
  assumes "\<forall>v v'. normalizeEnumValues js v I = Some v' \<longrightarrow> normalizeEnumValues js v' I = Some v'"
    and "normalizeItems js xs I = Some ys"
  shows "normalizeItems js ys I = Some ys"
  using assms(2)
proof (induction xs arbitrary: ys)
  case Nil
  then show ?case by simp
next
  case (Cons x xs)
  then obtain y ys' where y: "normalizeEnumValues js x I = Some y" "normalizeItems js xs I = Some ys'" "ys = y # ys'"
    by (auto split: option.splits)
  have "normalizeEnumValues js y I = Some y" using assms(1) y(1) by blast
  moreover have "normalizeItems js ys' I = Some ys'" using Cons.IH y(2) by blast
  ultimately show ?case using y(3) by simp
qed


lemma prop_value_idem:
  assumes laws: "string_method_laws js"
    and en: "\<And>en. schema_enum P = Some en \<Longrightarrow> variation_targets_first js en"
    and ihp: "\<forall>v v'. normalizeEnumValues js v P = Some v' \<longrightarrow> normalizeEnumValues js v' P = Some v'"
    and ihi: "\<And>I. schema_items P = Some I \<Longrightarrow>
               \<forall>v v'. normalizeEnumValues js v I = Some v' \<longrightarrow> normalizeEnumValues js v' I = Some v'"
    and pv: "prop_value js P vo = Some (Some x)"
  shows "prop_value js P (Some x) = Some (Some x)"
proof -
  from pv obtain v where vo: "vo = Some v" by (cases vo) (auto simp: prop_value_def)
  show ?thesis
  proof (cases "\<exists>s. v = JString s")
    case True
    then obtain s where s: "v = JString s" by blast
    from pv vo s obtain e s' c where e: "schema_enum P = Some e"
      "normalize_string js e s = Some (Some s', c)" "x = JString s'"
      by (auto simp: prop_value_def split: option.splits)
    have "normalize_string js e s' = Some (Some s', True)"
      using normalize_string_idem[OF laws en[OF e(1)] e(2)] .
    then show ?thesis using e by (simp add: prop_value_def)
  next
    case False
    show ?thesis
    proof (cases "schema_type P = Some ''object'' \<and> schema_properties P \<noteq> None \<and> truthy v")
      case True
      then have nx: "normalizeEnumValues js v P = Some x"
        using pv vo False by (cases v; auto simp: prop_value_def split: option.splits)
      from normalizeEnumValues_kind[OF nx] False True
      have k: "(\<nexists>s. x = JString s) \<and> truthy x" by auto
      have "normalizeEnumValues js x P = Some x" using ihp nx by blast
      then show ?thesis using k True by (cases x; auto simp: prop_value_def)
    next
      case nobj: False
      from pv vo False nobj obtain t ity ienum iprops iits xs ys where
        a: "schema_type P = Some t" "t = ''array''"
           "schema_items P = Some (Schema ity ienum (Some iprops) iits)" "v = JArray xs"
           "normalizeItems js xs (Schema ity ienum (Some iprops) iits) = Some ys" "x = JArray ys"
        by (cases v; auto simp: prop_value_def split: option.splits schema.splits if_splits)
      have "normalizeItems js ys (Schema ity ienum (Some iprops) iits) = Some ys"
        using normalizeItems_idem[OF ihi[OF a(3)] a(5)] .
      then show ?thesis using a by (simp add: prop_value_def)
    qed
  qed
qed

lemma prop_step_idem:
  assumes "\<And>vo x. prop_value js P vo = Some (Some x) \<Longrightarrow> prop_value js P (Some x) = Some (Some x)"
    and "prop_step js k P r = Some r'"
  shows "prop_step js k P r' = Some r'"
proof (cases "prop_value js P (get_prop r k)")
  case None
  then show ?thesis using assms(2) by (simp add: prop_step_value apply_value_def)
next
  case (Some n)
  show ?thesis
  proof (cases n)
    case None
    then show ?thesis using assms(2) Some by (simp add: prop_step_value apply_value_def)
  next
    case x: (Some x)
    then have r': "r' = put_prop r k x" using assms(2) Some by (simp add: prop_step_value apply_value_def)
    have "prop_value js P None = Some None" by (simp add: prop_value_def)
    then have "get_prop r k \<noteq> None" using Some x by (cases "get_prop r k") auto
    then have g: "get_prop r' k = Some x" using r' get_put_same by auto
    have "prop_value js P (Some x) = Some (Some x)" using assms(1) Some x by blast
    then show ?thesis using g r' by (simp add: prop_step_value apply_value_def put_put_same)
  qed
qed

lemma normalizeEnumValues_idem_aux:
  assumes laws: "string_method_laws js"
  shows "wf_schema js S \<Longrightarrow>
     (\<forall>v v'. normalizeEnumValues js v S = Some v' \<longrightarrow> normalizeEnumValues js v' S = Some v')
   \<and> (\<forall>I. schema_items S = Some I \<longrightarrow>
        (\<forall>v v'. normalizeEnumValues js v I = Some v' \<longrightarrow> normalizeEnumValues js v' I = Some v'))"
proof (induction S)
  case (Schema ty en props its)
  have items: "\<forall>I. its = Some I \<longrightarrow>
        (\<forall>v v'. normalizeEnumValues js v I = Some v' \<longrightarrow> normalizeEnumValues js v' I = Some v')"
    using Schema.IH(2) Schema.prems by auto
  have self: "normalizeEnumValues js v' (Schema ty en props its) = Some v'"
    if n: "normalizeEnumValues js v (Schema ty en props its) = Some v'" for v v'
  proof (cases props)
    case None
    then show ?thesis by simp
  next
    case (Some entries)
    show ?thesis
    proof (cases "\<not> truthy v \<or> \<not> typeof_object v")
      case True
      then show ?thesis using n Some by auto
    next
      case False
      then have np: "normalizeProperties js v entries = Some v'" using n Some by simp
      have d: "distinct (map fst entries)" using Schema.prems Some by simp
      have st: "\<forall>(k, P) \<in> set entries. \<forall>r r'. prop_step js k P r = Some r' \<longrightarrow> prop_step js k P r' = Some r'"
      proof (clarify)
        fix k P r r'
        assume kp: "(k, P) \<in> set entries" and s: "prop_step js k P r = Some r'"
        have wfP: "wf_schema js P" using Schema.prems Some kp by auto
        have ih: "(\<forall>v v'. normalizeEnumValues js v P = Some v' \<longrightarrow> normalizeEnumValues js v' P = Some v')
           \<and> (\<forall>I. schema_items P = Some I \<longrightarrow>
                (\<forall>v v'. normalizeEnumValues js v I = Some v' \<longrightarrow> normalizeEnumValues js v' I = Some v'))"
          using Schema.IH(1)[of entries "(k, P)" P] Some kp wfP by simp
        have enP: "\<And>e. schema_enum P = Some e \<Longrightarrow> variation_targets_first js e"
          using wfP by (cases P) auto
        have "\<And>vo x. prop_value js P vo = Some (Some x) \<Longrightarrow> prop_value js P (Some x) = Some (Some x)"
          using prop_value_idem[OF laws, of P] enP ih by blast
        then show "prop_step js k P r' = Some r'" using prop_step_idem s by blast
      qed
      have "normalizeProperties js v' entries = Some v'" using props_idem[OF d st np] .
      moreover have "truthy v' \<and> typeof_object v'"
        using normalizeProperties_kind[OF np] False by auto
      ultimately show ?thesis using Some by simp
    qed
  qed
  show ?case using self items by simp
qed

lemma prop_step_other:
  assumes "prop_step js k' P' r = Some r1" "k' \<noteq> key"
  shows "get_prop r1 key = get_prop r key"
proof -
  from assms(1) have "apply_value r k' (prop_value js P' (get_prop r k')) = Some r1"
    by (simp add: prop_step_value)
  then have "r1 = r \<or> (\<exists>x. r1 = put_prop r k' x)"
    by (auto simp: apply_value_def split: option.splits)
  then show ?thesis using get_put_other[of key k' r] assms(2) by auto
qed

lemma normalizeProperties_other:
  "key \<notin> fst ` set ps \<Longrightarrow> normalizeProperties js r ps = Some r'
     \<Longrightarrow> get_prop r' key = get_prop r key"
proof (induction ps arbitrary: r)
  case Nil
  then show ?case by simp
next
  case (Cons a ps)
  obtain k P where a: "a = (k, P)" by (cases a)
  from Cons.prems(2) obtain r1 where r1: "prop_step js k P r = Some r1"
      "normalizeProperties js r1 ps = Some r'"
    by (auto simp: a normalizeProperties_bind split: Option.bind_splits)
  have "k \<noteq> key" and notin: "key \<notin> fst ` set ps" using Cons.prems(1) a by auto
  then have "get_prop r1 key = get_prop r key" using prop_step_other[OF r1(1)] by blast
  then show ?case using Cons.IH[OF notin r1(2)] by simp
qed

lemma normalizeProperties_at:
  "distinct (map fst ps) \<Longrightarrow> (key, P) \<in> set ps \<Longrightarrow> normalizeProperties js r ps = Some r'
     \<Longrightarrow> \<exists>r0 r1. get_prop r0 key = get_prop r key \<and> prop_step js key P r0 = Some r1
                 \<and> get_prop r' key = get_prop r1 key"
proof (induction ps arbitrary: r)
  case Nil
  then show ?case by simp
next
  case (Cons a ps)
  obtain k Q where a: "a = (k, Q)" by (cases a)
  from Cons.prems(3) obtain r1 where r1: "prop_step js k Q r = Some r1"
      "normalizeProperties js r1 ps = Some r'"
    by (auto simp: a normalizeProperties_bind split: Option.bind_splits)
  have d: "distinct (map fst ps)" and notin: "k \<notin> fst ` set ps" using Cons.prems(1) a by auto
  show ?case
  proof (cases "(key, P) = (k, Q)")
    case True
    then have "key \<notin> fst ` set ps" using notin by simp
    then have "get_prop r' key = get_prop r1 key" using normalizeProperties_other r1(2) by blast
    then show ?thesis using r1(1) True by blast
  next
    case False
    have in_ps: "(key, P) \<in> set ps" using Cons.prems(2) a False by auto
    then have "key \<in> fst ` set ps" by force
    then have "k \<noteq> key" using notin by blast
    then have g: "get_prop r1 key = get_prop r key" using prop_step_other[OF r1(1)] by blast
    from Cons.IH[OF d in_ps r1(2)] obtain r0 r2 where
      "get_prop r0 key = get_prop r1 key" "prop_step js key P r0 = Some r2"
      "get_prop r' key = get_prop r2 key" by blast
    then show ?thesis using g by metis
  qed
qed

lemma find_match_unique:
  assumes "\<forall>x \<in> set en. \<exists>e. x = JString e" "JString m \<in> set en" "toUpperCase js m = v"
    "\<forall>a. JString a \<in> set en \<and> toUpperCase js a = v \<longrightarrow> a = m"
  shows "find_match js en v = Some (Some m)"
  using assms(1,2,4)
proof (induction en)
  case Nil
  then show ?case by simp
next
  case (Cons x xs)
  then obtain e where e: "x = JString e" by auto
  show ?case
  proof (cases "toUpperCase js e = v")
    case True
    then have "e = m" using Cons.prems(3) e by simp
    then show ?thesis using e assms(3) by simp
  next
    case False
    then have "e \<noteq> m" using assms(3) by auto
    then have "JString m \<in> set xs" using Cons.prems(2) e by simp
    then have "find_match js xs v = Some (Some m)" using Cons.IH Cons.prems by simp
    then show ?thesis using e False by simp
  qed
qed

lemma find_hd_filter: "filter P xs \<noteq> [] \<Longrightarrow> find P xs = Some (hd (filter P xs))"
  by (induction xs) auto

lemma prop_step_string:
  assumes "schema_enum P = Some en" "get_prop r key = Some (JString s)"
    "normalize_string js en s = Some (Some m, True)"
  shows "prop_step js key P r = Some (put_prop r key (JString m))"
  using assms by (simp add: prop_step_parts enum_part_def)

lemma normalized_property:
  assumes props: "schema_properties S = Some entries" "distinct (map fst entries)"
    and ent: "(key, P) \<in> set entries" "schema_enum P = Some en"
    and g: "get_prop r key = Some (JString s)"
    and run: "normalizeEnumValues js r S = Some r'"
    and ns: "normalize_string js en s = Some (Some m, True)"
  shows "get_prop r' key = Some (JString m)"
proof -
  have kind: "truthy r \<and> typeof_object r" using g by (cases r) auto
  have "normalizeProperties js r entries = Some r'"
    using run props(1) kind by (cases S) auto
  from normalizeProperties_at[OF props(2) ent(1) this] obtain r0 r1 where
    r: "get_prop r0 key = get_prop r key" "prop_step js key P r0 = Some r1"
       "get_prop r' key = get_prop r1 key" by blast
  have g0: "get_prop r0 key = Some (JString s)" using r(1) g by simp
  have "r1 = put_prop r0 key (JString m)" using prop_step_string[OF ent(2) g0 ns] r(2) by simp
  then have "get_prop r1 key = Some (JString m)" using get_put_same[OF g0] by simp
  then show ?thesis using r(3) by simp
qed

lemma pipe_normalize_string:
  assumes laws: "string_method_laws js"
    and str: "\<forall>e \<in> set en. \<exists>a. e = JString a"
    and two: "2 \<le> length (filter (enum_includes en)
                 (map (trim js) (split CHR ''|'' (toUpperCase js (trim js s)))))"
    and fv: "hd (filter (enum_includes en)
                 (map (trim js) (split CHR ''|'' (toUpperCase js (trim js s))))) = fv" "fv \<noteq> []"
    and only: "\<forall>a. JString a \<in> set en \<and> toUpperCase js a = fv \<longrightarrow> a = fv"
  shows "normalize_string js en s = Some (Some fv, True)"
proof -
  let ?v = "toUpperCase js (trim js s)"
  define parts where "parts = map (trim js) (split CHR ''|'' ?v)"
  define valid where "valid = filter (enum_includes en) parts"
  have a: "2 \<le> length valid" "hd valid = fv" using two fv(1) unfolding valid_def parts_def by blast+
  have pipe: "CHR ''|'' \<in> set ?v"
  proof (rule ccontr)
    assume "CHR ''|'' \<notin> set ?v"
    then have "length parts = 1" by (simp add: split_no_sep_single parts_def)
    moreover have "length valid \<le> length parts" unfolding valid_def by (rule length_filter_le)
    ultimately show False using a by simp
  qed
  have ne: "valid \<noteq> []" using a(1) by auto
  then have f: "find (enum_includes en) parts = Some (hd valid)"
    unfolding valid_def by (rule find_hd_filter)
  have "collapse_enum_list js en ?v =
     (let matchCount = length valid
        in if matchCount \<ge> 2 then
             (case find (enum_includes en) parts of
                Some firstValid \<Rightarrow> if firstValid \<noteq> [] then firstValid else ?v
              | None \<Rightarrow> ?v)
           else ?v)"
    using pipe unfolding collapse_enum_list_def valid_def parts_def by (simp only: Let_def if_True)
  then have c: "collapse_enum_list js en ?v = fv" using a f fv(2) by simp
  have "hd valid \<in> set valid" using ne by simp
  then have inc: "JString fv \<in> set en" using a(2) by (simp add: enum_includes_def valid_def)
  have up: "toUpperCase js fv = fv"
    using collapse_upper[OF laws upper_idem[OF laws], of en "trim js s"] c by simp
  have "find_match js en fv = Some (Some fv)"
    using find_match_unique[OF str inc up only] .
  then show ?thesis using c fv(2) by (simp add: normalize_string_def)
qed

lemma plain_normalize_string:
  assumes laws: "string_method_laws js"
    and str: "\<forall>e \<in> set en. \<exists>a. e = JString a"
    and nopipe: "CHR ''|'' \<notin> set s"
    and m: "JString m \<in> set en" "m \<noteq> []" "toUpperCase js m = toUpperCase js (trim js s)"
    and only: "\<forall>a. JString a \<in> set en \<and> toUpperCase js a = toUpperCase js m \<longrightarrow> a = m"
  shows "normalize_string js en s = Some (Some m, True)"
proof -
  let ?v = "toUpperCase js (trim js s)"
  have "CHR ''|'' \<notin> set (trim js s)" using trim_no_pipe[OF laws nopipe] .
  then have "CHR ''|'' \<notin> set ?v" by (rule upper_no_pipe[OF laws])
  then have c: "collapse_enum_list js en ?v = ?v" by (rule collapse_no_pipe)
  have "\<forall>a. JString a \<in> set en \<and> toUpperCase js a = ?v \<longrightarrow> a = m" using only m(3) by simp
  then have "find_match js en ?v = Some (Some m)" using find_match_unique[OF str m(1,3)] by blast
  then show ?thesis using c m(2) by (simp add: normalize_string_def)
qed

text \<open>
  Claim C4, amended. Let the schema be such that, in every \<open>enum\<close> that includes a target
  of the table of variations, the first string equal to the target up to letter case is the
  target itself (and the property names of each object are distinct, as the keys of an
  object are). Then for every JSON value \<open>x\<close>, normalizing twice gives what normalizing
  once gives, for nested objects and arrays of objects too; when the first normalization
  throws, there is nothing to normalize again. This holds whatever \<open>toUpperCase\<close> and
  \<open>trim\<close> do, as long as they obey \<open>string_method_laws\<close>. Without the condition on
  \<open>enum\<close> the claim fails, as the example after the theorem shows.
\<close>

theorem normalizeEnumValues_idempotent:
  "string_method_laws js \<Longrightarrow> wf_schema js S \<Longrightarrow>
     Option.bind (normalizeEnumValues js x S) (\<lambda>y. normalizeEnumValues js y S)
       = normalizeEnumValues js x S"
  using normalizeEnumValues_idem_aux[of js S] by (cases "normalizeEnumValues js x S") auto

theorem normalizeEnumValues_idempotent_witness:
  "string_method_laws ascii_methods
   \<and> wf_schema ascii_methods (Schema (Some ''object'') None
       (Some [(''complexity'', Schema (Some ''string'')
                  (Some [JString ''TRIVIAL'', JString ''SIMPLE'', JString ''STANDARD'']) None None),
              (''mode'', Schema (Some ''string'') (Some [JString ''Simple'', JString ''simple'']) None None),
              (''items'', Schema (Some ''array'') None None
                  (Some (Schema (Some ''object'') None
                     (Some [(''status'', Schema None (Some [JString ''PENDING'', JString ''RUNNING'']) None None)])
                     None)))]) None)
   \<and> normalizeEnumValues ascii_methods
        (JObject [(''complexity'', JString '' simple|Standard ''), (''mode'', JString ''SIMPLE''),
                  (''items'', JArray [JObject [(''status'', JString ''running'')]])])
        (Schema (Some ''object'') None
       (Some [(''complexity'', Schema (Some ''string'')
                  (Some [JString ''TRIVIAL'', JString ''SIMPLE'', JString ''STANDARD'']) None None),
              (''mode'', Schema (Some ''string'') (Some [JString ''Simple'', JString ''simple'']) None None),
              (''items'', Schema (Some ''array'') None None
                  (Some (Schema (Some ''object'') None
                     (Some [(''status'', Schema None (Some [JString ''PENDING'', JString ''RUNNING'']) None None)])
                     None)))]) None)
      = Some (JObject [(''complexity'', JString ''SIMPLE''), (''mode'', JString ''Simple''),
                  (''items'', JArray [JObject [(''status'', JString ''RUNNING'')]])])
   \<and> normalizeEnumValues ascii_methods
        (JObject [(''complexity'', JString ''SIMPLE''), (''mode'', JString ''Simple''),
                  (''items'', JArray [JObject [(''status'', JString ''RUNNING'')]])])
        (Schema (Some ''object'') None
       (Some [(''complexity'', Schema (Some ''string'')
                  (Some [JString ''TRIVIAL'', JString ''SIMPLE'', JString ''STANDARD'']) None None),
              (''mode'', Schema (Some ''string'') (Some [JString ''Simple'', JString ''simple'']) None None),
              (''items'', Schema (Some ''array'') None None
                  (Some (Schema (Some ''object'') None
                     (Some [(''status'', Schema None (Some [JString ''PENDING'', JString ''RUNNING'']) None None)])
                     None)))]) None)
      = Some (JObject [(''complexity'', JString ''SIMPLE''), (''mode'', JString ''Simple''),
                  (''items'', JArray [JObject [(''status'', JString ''RUNNING'')]])])"
proof -
  let ?S = "Schema (Some ''object'') None
       (Some [(''complexity'', Schema (Some ''string'')
                  (Some [JString ''TRIVIAL'', JString ''SIMPLE'', JString ''STANDARD'']) None None),
              (''mode'', Schema (Some ''string'') (Some [JString ''Simple'', JString ''simple'']) None None),
              (''items'', Schema (Some ''array'') None None
                  (Some (Schema (Some ''object'') None
                     (Some [(''status'', Schema None (Some [JString ''PENDING'', JString ''RUNNING'']) None None)])
                     None)))]) None"
  let ?x = "JObject [(''complexity'', JString '' simple|Standard ''), (''mode'', JString ''SIMPLE''),
                  (''items'', JArray [JObject [(''status'', JString ''running'')]])]"
  let ?y = "JObject [(''complexity'', JString ''SIMPLE''), (''mode'', JString ''Simple''),
                  (''items'', JArray [JObject [(''status'', JString ''RUNNING'')]])]"
  have wf: "wf_schema ascii_methods ?S" by code_simp
  have 1: "normalizeEnumValues ascii_methods ?x ?S = Some ?y" by code_simp
  have "normalizeEnumValues ascii_methods ?y ?S = Some ?y"
    using normalizeEnumValues_idempotent[OF ascii_methods_laws wf, of ?x] unfolding 1
    by (simp only: Option.bind.simps)
  then show ?thesis using ascii_methods_laws wf 1 by blast
qed

text \<open>
  With the enum \<open>['debug', 'DEBUG']\<close> the value \<open>'fix'\<close> becomes \<open>'DEBUG'\<close> through the
  table of variations, and a second normalization turns \<open>'DEBUG'\<close> into \<open>'debug'\<close>, the
  first entry that matches it up to case.
\<close>

theorem normalizeEnumValues_not_idempotent:
  "normalizeEnumValues ascii_methods (JObject [(''taskType'', JString ''fix'')])
     (Schema (Some ''object'') None
        (Some [(''taskType'', Schema (Some ''string'') (Some [JString ''debug'', JString ''DEBUG'']) None None)])
        None)
     = Some (JObject [(''taskType'', JString ''DEBUG'')])
   \<and> normalizeEnumValues ascii_methods (JObject [(''taskType'', JString ''DEBUG'')])
     (Schema (Some ''object'') None
        (Some [(''taskType'', Schema (Some ''string'') (Some [JString ''debug'', JString ''DEBUG'']) None None)])
        None)
     = Some (JObject [(''taskType'', JString ''debug'')])"
  by code_simp

text \<open>
  A value with a \<open>|\<close> of which exactly one part is an enum option is not collapsed: it
  is left as it is.
\<close>

theorem pipe_single_valid_part_not_collapsed:
  "CHR ''|'' \<in> set ''SIMPLE|foo''
   \<and> filter (enum_includes [JString ''TRIVIAL'', JString ''SIMPLE'', JString ''STANDARD''])
        (map (trim ascii_methods)
           (split CHR ''|'' (toUpperCase ascii_methods (trim ascii_methods ''SIMPLE|foo'')))) = [''SIMPLE'']
   \<and> normalizeEnumValues ascii_methods (JObject [(''complexity'', JString ''SIMPLE|foo'')])
        (Schema (Some ''object'') None
           (Some [(''complexity'', Schema (Some ''string'')
                     (Some [JString ''TRIVIAL'', JString ''SIMPLE'', JString ''STANDARD'']) None None)])
           None)
      = Some (JObject [(''complexity'', JString ''SIMPLE|foo'')])"
  by code_simp

text \<open>
  Claim C5, amended. Let \<open>normalizeEnumValues\<close> return \<open>r'\<close> on the result \<open>r\<close> and a
  schema whose properties have distinct names, and let one of these properties have an
  \<open>enum\<close> of strings and hold a string in \<open>r\<close>. When at least two of the \<open>|\<close>-separated
  parts of the value (trimmed, in upper case) are enum options, and the first of them is not
  empty and is the only enum entry equal to it up to letter case, the property holds that
  first option in \<open>r'\<close>. When the value has no \<open>|\<close> and equals, up to case and surrounding
  white space, a non-empty enum option that is the only entry equal to it up to case, the
  property holds that option in \<open>r'\<close>, whatever the table of variations holds. This holds
  whatever \<open>toUpperCase\<close> and \<open>trim\<close> do, as long as they obey \<open>string_method_laws\<close>.
\<close>

theorem pipe_list_collapsed:
  assumes laws: "string_method_laws js"
    and props: "schema_properties S = Some entries" "distinct (map fst entries)"
    and ent: "(key, P) \<in> set entries" "schema_enum P = Some en"
    and str: "\<forall>e \<in> set en. \<exists>a. e = JString a"
    and g: "get_prop r key = Some (JString s)"
    and run: "normalizeEnumValues js r S = Some r'"
  shows "(2 \<le> length (filter (enum_includes en)
                 (map (trim js) (split CHR ''|'' (toUpperCase js (trim js s)))))
          \<and> hd (filter (enum_includes en)
                 (map (trim js) (split CHR ''|'' (toUpperCase js (trim js s))))) = fv
          \<and> fv \<noteq> []
          \<and> (\<forall>a. JString a \<in> set en \<and> toUpperCase js a = fv \<longrightarrow> a = fv)
          \<longrightarrow> get_prop r' key = Some (JString fv))
       \<and> (CHR ''|'' \<notin> set s \<and> JString m \<in> set en \<and> m \<noteq> []
            \<and> toUpperCase js m = toUpperCase js (trim js s)
            \<and> (\<forall>a. JString a \<in> set en \<and> toUpperCase js a = toUpperCase js m \<longrightarrow> a = m)
          \<longrightarrow> get_prop r' key = Some (JString m))"
proof (intro conjI impI)
  assume a: "2 \<le> length (filter (enum_includes en)
                 (map (trim js) (split CHR ''|'' (toUpperCase js (trim js s)))))
          \<and> hd (filter (enum_includes en)
                 (map (trim js) (split CHR ''|'' (toUpperCase js (trim js s))))) = fv
          \<and> fv \<noteq> []
          \<and> (\<forall>a. JString a \<in> set en \<and> toUpperCase js a = fv \<longrightarrow> a = fv)"
  have "normalize_string js en s = Some (Some fv, True)"
    by (rule pipe_normalize_string[OF laws str]) (use a in blast)+
  then show "get_prop r' key = Some (JString fv)"
    by (rule normalized_property[OF props ent g run])
next
  assume a: "CHR ''|'' \<notin> set s \<and> JString m \<in> set en \<and> m \<noteq> []
            \<and> toUpperCase js m = toUpperCase js (trim js s)
            \<and> (\<forall>a. JString a \<in> set en \<and> toUpperCase js a = toUpperCase js m \<longrightarrow> a = m)"
  have "normalize_string js en s = Some (Some m, True)"
    by (rule plain_normalize_string[OF laws str]) (use a in blast)+
  then show "get_prop r' key = Some (JString m)"
    by (rule normalized_property[OF props ent g run])
qed

theorem pipe_list_collapsed_witness:
  "normalizeEnumValues ascii_methods
      (JObject [(''taskType'', JString '' task ''), (''complexity'', JString ''simple | standard''),
                (''reasoning'', JString ''a|b'')])
      (Schema (Some ''object'') None
         (Some [(''taskType'', Schema (Some ''string'')
                   (Some [JString ''TASK'', JString ''DEBUG'', JString ''INQUIRY'']) None None),
                (''complexity'', Schema (Some ''string'')
                   (Some [JString ''TRIVIAL'', JString ''SIMPLE'', JString ''STANDARD'']) None None)])
         None)
    = Some (JObject [(''taskType'', JString ''TASK''), (''complexity'', JString ''SIMPLE''),
                     (''reasoning'', JString ''a|b'')])
   \<and> get_prop (JObject [(''taskType'', JString ''TASK''), (''complexity'', JString ''SIMPLE''),
                     (''reasoning'', JString ''a|b'')]) ''complexity'' = Some (JString ''SIMPLE'')
   \<and> get_prop (JObject [(''taskType'', JString ''TASK''), (''complexity'', JString ''SIMPLE''),
                     (''reasoning'', JString ''a|b'')]) ''taskType'' = Some (JString ''TASK'')"
proof -
  let ?en1 = "[JString ''TASK'', JString ''DEBUG'', JString ''INQUIRY'']"
  let ?en2 = "[JString ''TRIVIAL'', JString ''SIMPLE'', JString ''STANDARD'']"
  let ?P1 = "Schema (Some ''string'') (Some ?en1) None None"
  let ?P2 = "Schema (Some ''string'') (Some ?en2) None None"
  let ?entries = "[(''taskType'', ?P1), (''complexity'', ?P2)]"
  let ?S = "Schema (Some ''object'') None (Some ?entries) None"
  let ?r = "JObject [(''taskType'', JString '' task ''), (''complexity'', JString ''simple | standard''),
                (''reasoning'', JString ''a|b'')]"
  let ?r' = "JObject [(''taskType'', JString ''TASK''), (''complexity'', JString ''SIMPLE''),
                     (''reasoning'', JString ''a|b'')]"
  have props: "schema_properties ?S = Some ?entries" "distinct (map fst ?entries)" by simp_all
  have e1: "(''taskType'', ?P1) \<in> set ?entries" "schema_enum ?P1 = Some ?en1" by simp_all
  have e2: "(''complexity'', ?P2) \<in> set ?entries" "schema_enum ?P2 = Some ?en2" by simp_all
  have s1: "\<forall>e \<in> set ?en1. \<exists>a. e = JString a" and s2: "\<forall>e \<in> set ?en2. \<exists>a. e = JString a"
    by simp_all
  have g1: "get_prop ?r ''taskType'' = Some (JString '' task '')"
    and g2: "get_prop ?r ''complexity'' = Some (JString ''simple | standard'')" by simp_all
  have run: "normalizeEnumValues ascii_methods ?r ?S = Some ?r'" by code_simp
  have v: "filter (enum_includes ?en2) (map (trim ascii_methods)
             (split CHR ''|'' (toUpperCase ascii_methods (trim ascii_methods ''simple | standard''))))
           = [''SIMPLE'', ''STANDARD'']" by code_simp
  have c2: "\<forall>x \<in> set ?en2. (case x of JString a \<Rightarrow>
               toUpperCase ascii_methods a = ''SIMPLE'' \<longrightarrow> a = ''SIMPLE'' | _ \<Rightarrow> True)"
    by code_simp
  have only2: "\<forall>a. JString a \<in> set ?en2 \<and> toUpperCase ascii_methods a = ''SIMPLE'' \<longrightarrow> a = ''SIMPLE''"
  proof (intro allI impI)
    fix a assume a: "JString a \<in> set ?en2 \<and> toUpperCase ascii_methods a = ''SIMPLE''"
    then have "case JString a of JString a \<Rightarrow>
               toUpperCase ascii_methods a = ''SIMPLE'' \<longrightarrow> a = ''SIMPLE'' | _ \<Rightarrow> True"
      using c2 by blast
    then show "a = ''SIMPLE''" using a by simp
  qed
  have u: "toUpperCase ascii_methods ''TASK'' = toUpperCase ascii_methods (trim ascii_methods '' task '')"
    "toUpperCase ascii_methods ''TASK'' = ''TASK''" by code_simp+
  have c1: "\<forall>x \<in> set ?en1. (case x of JString a \<Rightarrow>
               toUpperCase ascii_methods a = ''TASK'' \<longrightarrow> a = ''TASK'' | _ \<Rightarrow> True)"
    by code_simp
  have only1: "\<forall>a. JString a \<in> set ?en1 \<and> toUpperCase ascii_methods a = toUpperCase ascii_methods ''TASK''
                 \<longrightarrow> a = ''TASK''"
  proof (intro allI impI)
    fix a assume a: "JString a \<in> set ?en1 \<and> toUpperCase ascii_methods a = toUpperCase ascii_methods ''TASK''"
    then have "case JString a of JString a \<Rightarrow>
               toUpperCase ascii_methods a = ''TASK'' \<longrightarrow> a = ''TASK'' | _ \<Rightarrow> True"
      using c1 by blast
    then show "a = ''TASK''" using a u(2) by simp
  qed
  have n1: "CHR ''|'' \<notin> set '' task ''" "JString ''TASK'' \<in> set ?en1" by simp_all
  note t1 = pipe_list_collapsed[OF ascii_methods_laws props e2 s2 g2 run, of "''SIMPLE''",
      THEN conjunct1, rule_format]
  have 1: "get_prop ?r' ''complexity'' = Some (JString ''SIMPLE'')"
  proof (rule t1, unfold v, intro conjI)
    show "\<forall>a. JString a \<in> set ?en2 \<and> toUpperCase ascii_methods a = ''SIMPLE'' \<longrightarrow> a = ''SIMPLE''"
      by (rule only2)
  qed simp_all
  note t2 = pipe_list_collapsed[OF ascii_methods_laws props e1 s1 g1 run, of _ "''TASK''",
      THEN conjunct2, rule_format]
  have 2: "get_prop ?r' ''taskType'' = Some (JString ''TASK'')"
  proof (rule t2, intro conjI)
    show "\<forall>a. JString a \<in> set ?en1 \<and> toUpperCase ascii_methods a = toUpperCase ascii_methods ''TASK''
                 \<longrightarrow> a = ''TASK''"
      by (rule only1)
    show "toUpperCase ascii_methods ''TASK'' = toUpperCase ascii_methods (trim ascii_methods '' task '')"
      by (rule u(1))
  qed simp_all
  show ?thesis using run 1 2 by blast
qed

section \<open>Properties of the task runner and of the stores\<close>

text \<open>
  Claim C3. When a schema is configured, the desired output format is \<open>json\<close> and
  \<open>strictSchema\<close> is false, \<open>run\<close> asks for \<open>stream-json\<close> and passes no
  \<open>--json-schema\<close> argument; when \<open>strictSchema\<close> is true instead, it asks for \<open>json\<close>
  and passes the schema after \<open>--json-schema\<close>. The same holds for the command run in a
  container.
\<close>

theorem run_schema_streaming_policy:
  assumes "schema_configured opts" "desiredOutputFormat opts = ''json''"
  shows "(\<not> strict opts \<longrightarrow>
            runOutputFormat opts = ''stream-json''
          \<and> run_args stringify providerName spec opts context =
              [''task'', ''run'', ''--output-format'', ''stream-json'', ''--provider'', providerName]
              @ model_args spec @ [context]
          \<and> runIsolated_command stringify pretty providerName spec opts context =
              [''zeroshot'', ''task'', ''run'', ''--output-format'', ''stream-json'', ''--provider'',
               providerName]
              @ model_args spec
              @ [context @ output_format_block (pretty (the (jsonSchema opts)))])
       \<and> (strict opts \<longrightarrow>
            runOutputFormat opts = ''json''
          \<and> run_args stringify providerName spec opts context =
              [''task'', ''run'', ''--output-format'', ''json'', ''--provider'', providerName]
              @ model_args spec @ [''--json-schema'', stringify (the (jsonSchema opts)), context]
          \<and> runIsolated_command stringify pretty providerName spec opts context =
              [''zeroshot'', ''task'', ''run'', ''--output-format'', ''json'', ''--provider'',
               providerName]
              @ model_args spec @ [''--json-schema'', stringify (the (jsonSchema opts)), context])
       \<and> run stringify pretty providerName spec opts context =
            (if isolation_enabled opts
             then InContainer (runIsolated_command stringify pretty providerName spec opts context)
             else Process ''zeroshot'' (run_args stringify providerName spec opts context))"
  using assms by (simp add: runOutputFormat_def run_args_def runIsolated_command_def run_def)

theorem run_schema_streaming_policy_witness:
  "run (\<lambda>j. ''{}'') (\<lambda>j. ''{ }'') ''claude'' (Some \<lparr>spec_model = Some ''sonnet'', spec_reasoningEffort = None\<rparr>)
      \<lparr>outputFormat = Some ''json'', jsonSchema = Some (JObject []), strictSchema = Some False,
       isolation_enabled = False\<rparr> ''do it''
    = Process ''zeroshot'' [''task'', ''run'', ''--output-format'', ''stream-json'', ''--provider'', ''claude'',
        ''--model'', ''sonnet'', ''do it'']
   \<and> run (\<lambda>j. ''{}'') (\<lambda>j. ''{ }'') ''claude'' (Some \<lparr>spec_model = Some ''sonnet'', spec_reasoningEffort = None\<rparr>)
      \<lparr>outputFormat = Some ''json'', jsonSchema = Some (JObject []), strictSchema = Some True,
       isolation_enabled = False\<rparr> ''do it''
    = Process ''zeroshot'' [''task'', ''run'', ''--output-format'', ''json'', ''--provider'', ''claude'',
        ''--model'', ''sonnet'', ''--json-schema'', ''{}'', ''do it'']"
proof -
  let ?o1 = "\<lparr>outputFormat = Some ''json'', jsonSchema = Some (JObject []), strictSchema = Some False,
       isolation_enabled = False\<rparr>"
  let ?o2 = "\<lparr>outputFormat = Some ''json'', jsonSchema = Some (JObject []), strictSchema = Some True,
       isolation_enabled = False\<rparr>"
  have 1: "schema_configured ?o1" "desiredOutputFormat ?o1 = ''json''" "\<not> strict ?o1"
    by (simp_all add: schema_configured_def desiredOutputFormat_def strict_def)
  have 2: "schema_configured ?o2" "desiredOutputFormat ?o2 = ''json''" "strict ?o2"
    by (simp_all add: schema_configured_def desiredOutputFormat_def strict_def)
  show ?thesis
    using run_schema_streaming_policy[OF 1(1,2), of "\<lambda>j. ''{}''" "''claude''"
        "Some \<lparr>spec_model = Some ''sonnet'', spec_reasoningEffort = None\<rparr>" "''do it''" "\<lambda>j. ''{ }''"]
      run_schema_streaming_policy[OF 2(1,2), of "\<lambda>j. ''{}''" "''claude''"
        "Some \<lparr>spec_model = Some ''sonnet'', spec_reasoningEffort = None\<rparr>" "''do it''" "\<lambda>j. ''{ }''"]
      1(3) 2(3)
    by (simp add: model_args_def)
qed

lemma retry_wait_bounds:
  assumes "0 \<le> r" "r < 1"
  shows "100 \<le> retry_wait (retry LOCK_OPTIONS) r k \<and> retry_wait (retry LOCK_OPTIONS) r k \<le> 200"
proof -
  let ?x = "(1 + r) * 100 * 2 ^ k"
  have "(1::real) \<le> 2 ^ k" by simp
  then have "100 * 1 \<le> (1 + r) * 100 * (2::real) ^ k"
    using assms(1) by (intro mult_mono) auto
  then have "round (100::real) \<le> round ?x" by (intro round_mono) simp
  then have "(100::real) \<le> of_int (round ?x)" by simp
  then show ?thesis by (simp add: retry_wait_def LOCK_OPTIONS_def)
qed

lemma retry_wait_later:
  assumes "0 \<le> r" "1 \<le> k"
  shows "retry_wait (retry LOCK_OPTIONS) r k = 200"
proof -
  let ?x = "(1 + r) * 100 * 2 ^ k"
  have "(2::real) ^ 1 \<le> 2 ^ k" using assms(2) by (intro power_increasing) auto
  then have "(2::real) \<le> 2 ^ k" by simp
  then have "1 * 100 * 2 \<le> (1 + r) * 100 * (2::real) ^ k"
    using assms(1) by (intro mult_mono) auto
  then have "round (200::real) \<le> round ?x" by (intro round_mono) simp
  then have "(200::real) \<le> of_int (round ?x)" by simp
  then show ?thesis by (simp add: retry_wait_def LOCK_OPTIONS_def)
qed

lemma lock_attempts_props:
  assumes rnd: "\<forall>k. 0 \<le> rnd k \<and> rnd k < 1"
  shows "lock_attempts (retry LOCK_OPTIONS) busy rnd k left = (acquired, waits) \<Longrightarrow>
           length waits \<le> left
         \<and> (\<forall>d \<in> set waits. 100 \<le> d \<and> d \<le> 200)
         \<and> (1 \<le> k \<longrightarrow> (\<forall>d \<in> set waits. d = 200))
         \<and> (acquired \<longleftrightarrow> (\<exists>j. k \<le> j \<and> j \<le> k + left \<and> \<not> busy j))
         \<and> (\<not> acquired \<longrightarrow> length waits = left)"
proof (induction left arbitrary: k acquired waits)
  case 0
  then show ?case by auto
next
  case (Suc left)
  show ?case
  proof (cases "busy k")
    case False
    then have "acquired" "waits = []" using Suc.prems by simp_all
    then show ?thesis using False by auto
  next
    case True
    obtain a ws where r: "lock_attempts (retry LOCK_OPTIONS) busy rnd (Suc k) left = (a, ws)"
      by (cases "lock_attempts (retry LOCK_OPTIONS) busy rnd (Suc k) left")
    then have aw: "acquired = a" "waits = retry_wait (retry LOCK_OPTIONS) (rnd k) k # ws"
      using Suc.prems True by simp_all
    note ih = Suc.IH[OF r]
    have b: "100 \<le> retry_wait (retry LOCK_OPTIONS) (rnd k) k
             \<and> retry_wait (retry LOCK_OPTIONS) (rnd k) k \<le> 200"
      using retry_wait_bounds rnd by blast
    have l: "1 \<le> k \<longrightarrow> retry_wait (retry LOCK_OPTIONS) (rnd k) k = 200"
      using retry_wait_later rnd by blast
    have e: "(\<exists>j. Suc k \<le> j \<and> j \<le> Suc k + left \<and> \<not> busy j)
          \<longleftrightarrow> (\<exists>j. k \<le> j \<and> j \<le> k + Suc left \<and> \<not> busy j)"
    proof
      assume "\<exists>j. Suc k \<le> j \<and> j \<le> Suc k + left \<and> \<not> busy j"
      then obtain j where "Suc k \<le> j" "j \<le> Suc k + left" "\<not> busy j" by blast
      then have "k \<le> j \<and> j \<le> k + Suc left \<and> \<not> busy j" by simp
      then show "\<exists>j. k \<le> j \<and> j \<le> k + Suc left \<and> \<not> busy j" by blast
    next
      assume "\<exists>j. k \<le> j \<and> j \<le> k + Suc left \<and> \<not> busy j"
      then obtain j where j: "k \<le> j" "j \<le> k + Suc left" "\<not> busy j" by blast
      then have "j \<noteq> k" using True by blast
      then have "Suc k \<le> j \<and> j \<le> Suc k + left \<and> \<not> busy j" using j by simp
      then show "\<exists>j. Suc k \<le> j \<and> j \<le> Suc k + left \<and> \<not> busy j" by blast
    qed
    show ?thesis
    proof (intro conjI)
      show "length waits \<le> Suc left" using ih aw by simp
      show "\<forall>d \<in> set waits. 100 \<le> d \<and> d \<le> 200" using ih aw b by simp
      show "1 \<le> k \<longrightarrow> (\<forall>d \<in> set waits. d = 200)" using ih aw l by simp
      show "acquired \<longleftrightarrow> (\<exists>j. k \<le> j \<and> j \<le> k + Suc left \<and> \<not> busy j)"
        using ih aw e by simp
      show "\<not> acquired \<longrightarrow> length waits = Suc left" using ih aw by simp
    qed
  qed
qed

lemma sum_list_upper: "\<forall>d \<in> set ds. d \<le> (b::real) \<Longrightarrow> sum_list ds \<le> real (length ds) * b"
  by (induction ds) (auto simp: algebra_simps)

lemma sum_list_const: "\<forall>d \<in> set ds. d = (b::real) \<Longrightarrow> sum_list ds = real (length ds) * b"
  by (induction ds) (auto simp: algebra_simps)

lemma lockfile_lock_props:
  assumes rnd: "\<forall>k. 0 \<le> rnd k \<and> rnd k < 1"
    and l: "lockfile_lock LOCK_OPTIONS busy rnd = (acquired, waits)"
  shows "length waits \<le> 20 \<and> (\<forall>d \<in> set waits. 100 \<le> d \<and> d \<le> 200) \<and> sum_list waits \<le> 4000
       \<and> (acquired \<longleftrightarrow> (\<exists>k \<le> 20. \<not> busy k))
       \<and> (\<not> acquired \<longrightarrow> length waits = 20 \<and> 3900 \<le> sum_list waits)"
proof -
  have la: "lock_attempts (retry LOCK_OPTIONS) busy rnd 0 20 = (acquired, waits)"
    using l by (simp add: lockfile_lock_def LOCK_OPTIONS_def)
  note p = lock_attempts_props[OF rnd la]
  have len: "length waits \<le> 20" and bnd: "\<forall>d \<in> set waits. 100 \<le> d \<and> d \<le> 200" using p by blast+
  have "sum_list waits \<le> real (length waits) * 200" using sum_list_upper bnd by blast
  also have "\<dots> \<le> 20 * 200" using len by simp
  finally have total: "sum_list waits \<le> 4000" by simp
  have acq: "acquired \<longleftrightarrow> (\<exists>k \<le> 20. \<not> busy k)" using p by auto
  have fail: "length waits = 20 \<and> 3900 \<le> sum_list waits" if na: "\<not> acquired"
  proof -
    have len20: "length waits = 20" using p na by blast
    have b0: "busy 0" using na acq by auto
    obtain a ws where r: "lock_attempts (retry LOCK_OPTIONS) busy rnd (Suc 0) 19 = (a, ws)"
      by (cases "lock_attempts (retry LOCK_OPTIONS) busy rnd (Suc 0) 19")
    have "lock_attempts (retry LOCK_OPTIONS) busy rnd 0 (Suc 19) = (acquired, waits)"
      using la by simp
    then have w: "waits = retry_wait (retry LOCK_OPTIONS) (rnd 0) 0 # ws"
      using b0 r by (simp only: lock_attempts.simps if_True split: prod.splits) simp
    note q = lock_attempts_props[OF rnd r]
    have "\<forall>d \<in> set ws. d = 200" using q by simp
    then have "sum_list ws = real (length ws) * 200" by (rule sum_list_const)
    moreover have "length ws = 19" using w len20 by simp
    ultimately have "sum_list ws = 3800" by simp
    moreover have "100 \<le> retry_wait (retry LOCK_OPTIONS) (rnd 0) 0"
      using retry_wait_bounds rnd by blast
    ultimately show ?thesis using w len20 by simp
  qed
  show ?thesis using len bnd total acq fail by blast
qed

text \<open>
  Claim C7. \<open>cleanStaleLock\<close> removes an existing lock file exactly when the current time
  minus its \<open>mtime\<close> exceeds 5000 ms (given that \<open>statSync\<close> and \<open>unlinkSync\<close> succeed),
  and a lock file that does not exist stays absent. The acquisition that follows it in
  \<open>withTasksLock\<close> waits at most 20 times, each wait is between 100 and 200 ms, and the
  waits sum to at most 4000 ms; the lock is acquired exactly when one of the 21 attempts
  finds it free, and when none does there were 20 waits, of at least 3900 ms together.
\<close>

theorem cleanStaleLock_threshold:
  "(lock_exists env \<and> stat_mtimeMs env = Inr mtimeMs \<and> unlink_error env = None \<longrightarrow>
      (cleanStaleLock env \<longleftrightarrow> \<not> now env - mtimeMs > 5000))
   \<and> (\<not> lock_exists env \<longrightarrow> \<not> cleanStaleLock env)
   \<and> ((\<forall>k. 0 \<le> rnd k \<and> rnd k < 1)
        \<and> withTasksLock_acquire env busy rnd = (left_in_place, acquired, waits) \<longrightarrow>
        left_in_place = cleanStaleLock env
        \<and> length waits \<le> 20 \<and> (\<forall>d \<in> set waits. 100 \<le> d \<and> d \<le> 200) \<and> sum_list waits \<le> 4000
        \<and> (acquired \<longleftrightarrow> (\<exists>k \<le> 20. \<not> busy k))
        \<and> (\<not> acquired \<longrightarrow> length waits = 20 \<and> 3900 \<le> sum_list waits))"
proof (intro conjI impI)
  show "cleanStaleLock env \<longleftrightarrow> \<not> now env - mtimeMs > 5000"
    if "lock_exists env \<and> stat_mtimeMs env = Inr mtimeMs \<and> unlink_error env = None"
    using that by (simp add: cleanStaleLock_def LOCK_STALE_MS_def Let_def)
  show "\<not> cleanStaleLock env" if "\<not> lock_exists env"
    using that by (simp add: cleanStaleLock_def)
next
  assume a: "(\<forall>k. 0 \<le> rnd k \<and> rnd k < 1)
        \<and> withTasksLock_acquire env busy rnd = (left_in_place, acquired, waits)"
  then have l: "lockfile_lock LOCK_OPTIONS busy rnd = (acquired, waits)"
    and c: "left_in_place = cleanStaleLock env"
    by (auto simp: withTasksLock_acquire_def Let_def split: prod.splits)
  from a have rnd: "\<forall>k. 0 \<le> rnd k \<and> rnd k < 1" by blast
  note p = lockfile_lock_props[OF rnd l]
  show "left_in_place = cleanStaleLock env" by (rule c)
  show "length waits \<le> 20" using p by blast
  show "\<forall>d \<in> set waits. 100 \<le> d \<and> d \<le> 200" using p by blast
  show "sum_list waits \<le> 4000" using p by blast
  show "acquired \<longleftrightarrow> (\<exists>k \<le> 20. \<not> busy k)" using p by blast
  show "length waits = 20" if "\<not> acquired" using p that by blast
  show "3900 \<le> sum_list waits" if "\<not> acquired" using p that by blast
qed

theorem cleanStaleLock_threshold_witness:
  "\<not> cleanStaleLock \<lparr>now = 10001, lock_exists = True, stat_mtimeMs = Inr 5000, unlink_error = None\<rparr>
   \<and> cleanStaleLock \<lparr>now = 10000, lock_exists = True, stat_mtimeMs = Inr 5000, unlink_error = None\<rparr>
   \<and> withTasksLock_acquire
        \<lparr>now = 10001, lock_exists = True, stat_mtimeMs = Inr 5000, unlink_error = None\<rparr>
        (\<lambda>k. k < 2) (\<lambda>k. 1 / 2) = (False, True, [150, 200])
   \<and> sum_list [150, 200 :: real] \<le> 4000
   \<and> (\<exists>k \<le> 20. \<not> k < (2::nat))"
proof -
  let ?old = "\<lparr>now = 10001, lock_exists = True, stat_mtimeMs = Inr 5000, unlink_error = None\<rparr>"
  let ?young = "\<lparr>now = 10000, lock_exists = True, stat_mtimeMs = Inr 5000, unlink_error = None\<rparr>"
  have a: "withTasksLock_acquire ?old (\<lambda>k. k < 2) (\<lambda>k. 1 / 2) = (False, True, [150, 200])"
    by (simp add: withTasksLock_acquire_def lockfile_lock_def LOCK_OPTIONS_def cleanStaleLock_def
         LOCK_STALE_MS_def retry_wait_def eval_nat_numeral)
  have r: "\<forall>k::nat. 0 \<le> (1 / 2 :: real) \<and> (1 / 2 :: real) < 1" by simp
  have 1: "\<not> cleanStaleLock ?old"
    using cleanStaleLock_threshold[of ?old 5000 "\<lambda>k. 1 / 2" "\<lambda>k. k < 2" False True "[150, 200]"]
    by simp
  have 2: "cleanStaleLock ?young"
    using cleanStaleLock_threshold[of ?young 5000 "\<lambda>k. 1 / 2" "\<lambda>k. k < 2" False True "[150, 200]"]
    by simp
  have 3: "sum_list [150, 200 :: real] \<le> 4000 \<and> (\<exists>k \<le> 20. \<not> k < (2::nat))"
    using cleanStaleLock_threshold[of ?old 5000 "\<lambda>k. 1 / 2" "\<lambda>k. k < 2" False True "[150, 200]",
        THEN conjunct2, THEN conjunct2, rule_format, OF conjI, OF r a]
    by blast
  show ?thesis using 1 2 3 a by blast
qed

lemma sublist_prepend: "sublist xs ys \<Longrightarrow> sublist xs (zs @ ys)"
proof -
  assume "sublist xs ys"
  then obtain ps ss where "ys = ps @ xs @ ss" by (auto simp: sublist_def)
  then have "zs @ ys = (zs @ ps) @ xs @ ss" by simp
  then show ?thesis unfolding sublist_def by blast
qed

text \<open>
  Claim C8. When the store file exists and its content does not parse as JSON,
  \<open>loadTasks\<close> and \<open>loadSchedules\<close> throw: no value is returned. When \<open>ensureDirs\<close>
  succeeded, the message of the error holds the first 200 characters of the content.
\<close>

theorem load_corrupt_store_throws:
  assumes "store_file st = Content content" "parse content = Inl message"
  shows "isl (loadTasks parse st) \<and> isl (loadSchedules parse st)
       \<and> (dirs_error st = None \<longrightarrow>
            sublist (take 200 content) (projl (loadTasks parse st))
          \<and> sublist (take 200 content) (projl (loadSchedules parse st)))"
proof -
  have s: "sublist (take 200 content) (take 200 content @ ''...'')"
    using sublist_appendI[of "take 200 content" "[]" "''...''"] by simp
  have t: "sublist (take 200 content) (projl (load_store name parse st))"
    if "dirs_error st = None" for name
  proof -
    have "load_store name parse st =
        Inl (''CRITICAL: '' @ (name @ ('' is corrupted and cannot be parsed. Error: ''
               @ (message @ (''. Content: '' @ (take 200 content @ ''...''))))))"
      using assms that by (simp add: load_store_def)
    then show ?thesis
      by (simp only: sum.sel) (intro sublist_prepend s)
  qed
  have i: "\<And>name. isl (load_store name parse st)"
    using assms by (simp add: load_store_def split: option.splits)
  show ?thesis using i t by (simp add: loadTasks_def loadSchedules_def)
qed

theorem load_corrupt_store_throws_witness:
  "loadTasks (\<lambda>c. if c = ''{}'' then Inr (JObject []) else Inl ''Unexpected token'')
      \<lparr>dirs_error = None, store_file = Content ''{broken''\<rparr>
   = Inl ''CRITICAL: tasks.json is corrupted and cannot be parsed. Error: Unexpected token. Content: {broken...''
   \<and> sublist ''{broken'' ''CRITICAL: tasks.json is corrupted and cannot be parsed. Error: Unexpected token. Content: {broken...''"
proof -
  let ?parse = "\<lambda>c. if c = ''{}'' then Inr (JObject []) else Inl ''Unexpected token''"
  let ?st = "\<lparr>dirs_error = None, store_file = Content ''{broken''\<rparr>"
  have e: "loadTasks ?parse ?st
     = Inl ''CRITICAL: tasks.json is corrupted and cannot be parsed. Error: Unexpected token. Content: {broken...''"
    by (simp add: loadTasks_def load_store_def)
  have h: "store_file ?st = Content ''{broken''" "?parse ''{broken'' = Inl ''Unexpected token''" by simp_all
  from load_corrupt_store_throws[of ?st "''{broken''" ?parse "''Unexpected token''", OF h] e
  show ?thesis by simp
qed

section \<open>Properties of model selection by rules\<close>

lemma is_digit_digit_char: "d < 10 \<Longrightarrow> is_digit (digit_char d) \<and> digit_value (digit_char d) = d"
  by (simp add: is_digit_def digit_char_def digit_value_def)

lemma nat_of_digits_snoc: "nat_of_digits (s @ [c]) = 10 * nat_of_digits s + digit_value c"
  by (simp add: nat_of_digits_def)

lemma string_of_nat_digits:
  "all_digits (string_of_nat n) \<and> nat_of_digits (string_of_nat n) = n"
proof (induction n rule: string_of_nat.induct)
  case (1 n)
  show ?case
  proof (cases "n < 10")
    case True
    then have "string_of_nat n = [digit_char n]" by (simp add: string_of_nat.simps)
    then show ?thesis using is_digit_digit_char[OF True]
      by (simp add: all_digits_def nat_of_digits_def)
  next
    case False
    then have s: "string_of_nat n = string_of_nat (n div 10) @ [digit_char (n mod 10)]"
      by (subst string_of_nat.simps) simp
    have d: "is_digit (digit_char (n mod 10)) \<and> digit_value (digit_char (n mod 10)) = n mod 10"
      by (rule is_digit_digit_char) simp
    from 1[OF False] d show ?thesis
      by (simp add: s all_digits_def nat_of_digits_snoc)
  qed
qed

lemma digit_not_special:
  "is_digit c \<Longrightarrow> c \<noteq> CHR ''a'' \<and> c \<noteq> CHR ''+'' \<and> c \<noteq> CHR ''-''"
  by (auto simp: is_digit_def)

lemma all_digits_set: "all_digits s \<Longrightarrow> c \<in> set s \<Longrightarrow> is_digit c"
  by (simp add: all_digits_def list_all_iff)

lemma all_digits_not_all: "all_digits s \<Longrightarrow> s \<noteq> ''all''"
proof
  assume a: "all_digits s" and "s = ''all''"
  then have "CHR ''a'' \<in> set s" by simp
  then have "is_digit CHR ''a''" using all_digits_set[OF a] by blast
  then show False by (simp add: is_digit_def)
qed

lemma parse_pattern_exact: "all_digits ns \<Longrightarrow> parse_pattern ns = Some (MatchExact (nat_of_digits ns))"
proof -
  assume a: "all_digits ns"
  have 1: "(ns = ''all'') = False" using all_digits_not_all[OF a] by blast
  show ?thesis unfolding parse_pattern_def by (simp only: 1 a if_False if_True)
qed

lemma parse_pattern_from:
  assumes "all_digits ns"
  shows "parse_pattern (ns @ ''+'') = Some (MatchFrom (nat_of_digits ns))"
proof -
  have l: "last (ns @ ''+'') = CHR ''+''" and b: "butlast (ns @ ''+'') = ns"
    and ne: "ns @ ''+'' \<noteq> []" by simp_all
  have 1: "(ns @ ''+'' = ''all'') = False"
  proof -
    have "ns @ ''+'' \<noteq> ''all''"
    proof
      assume "ns @ ''+'' = ''all''"
      then have "last (ns @ ''+'') = last ''all''" by (rule arg_cong)
      then show False by (simp only: l) simp
    qed
    then show ?thesis by blast
  qed
  have "\<not> is_digit CHR ''+''" by (simp add: is_digit_def)
  then have "\<not> all_digits (ns @ ''+'')" by (simp add: all_digits_def)
  then have 2: "all_digits (ns @ ''+'') = False" by blast
  have 3: "(ns @ ''+'' \<noteq> [] \<and> last (ns @ ''+'') = CHR ''+'' \<and> all_digits (butlast (ns @ ''+''))) = True"
    using assms by (simp only: l b ne) simp
  have c3: "(ns @ ''+'' \<noteq> [] \<and> last (ns @ ''+'') = CHR ''+'' \<and> all_digits ns) = True"
    using 3 by (simp only: b)
  show ?thesis unfolding parse_pattern_def by (simp only: 1 2 c3 b if_False if_True)
qed

lemma parse_pattern_range:
  assumes "all_digits ns" "all_digits ms"
  shows "parse_pattern (ns @ ''-'' @ ms) = Some (MatchRange (nat_of_digits ns) (nat_of_digits ms))"
proof -
  let ?s = "ns @ ''-'' @ ms"
  have m: "CHR ''-'' \<in> set ?s" by simp
  have 1: "(?s = ''all'') = False"
  proof -
    have "?s \<noteq> ''all''"
    proof
      assume "?s = ''all''"
      then have "set ?s = set ''all''" by (rule arg_cong)
      then have "CHR ''-'' \<in> set ''all''" using m by blast
      then show False by simp
    qed
    then show ?thesis by blast
  qed
  have "\<not> is_digit CHR ''-''" by (simp add: is_digit_def)
  then have "\<not> all_digits ?s" using m all_digits_set by blast
  then have 2: "all_digits ?s = False" by blast
  have ms: "ms \<noteq> []" using assms(2) by (auto simp: all_digits_def)
  then have lm: "last ms \<in> set ms" by simp
  have "last ?s = last ms" using ms by simp
  moreover have "last ms \<noteq> CHR ''+''" using all_digits_set[OF assms(2) lm] digit_not_special by blast
  ultimately have "last ?s \<noteq> CHR ''+''" by simp
  then have 3: "(?s \<noteq> [] \<and> last ?s = CHR ''+'' \<and> all_digits (butlast ?s)) = False" by blast
  have n1: "CHR ''-'' \<notin> set ns" using all_digits_set[OF assms(1)] digit_not_special by blast
  have n2: "CHR ''-'' \<notin> set ms" using all_digits_set[OF assms(2)] digit_not_special by blast
  have 4: "split CHR ''-'' ?s = [ns, ms]"
    using split_at_sep[OF n1, of ms] split_no_sep_single[OF n2] by simp
  have 5: "(all_digits ns \<and> all_digits ms) = True" using assms by blast
  show ?thesis unfolding parse_pattern_def
    by (simp only: 1 2 3 4 5 if_False if_True list.case)
qed

lemma pattern_exact:
  "all_digits ns \<Longrightarrow> matchesIteration ns i = Inr (i = nat_of_digits ns)"
  by (simp add: matchesIteration_def parse_pattern_exact)

lemma pattern_from:
  "all_digits ns \<Longrightarrow> matchesIteration (ns @ ''+'') i = Inr (nat_of_digits ns \<le> i)"
  by (simp only: matchesIteration_def parse_pattern_from option.case pattern_matches.simps)

lemma pattern_range:
  "all_digits ns \<Longrightarrow> all_digits ms \<Longrightarrow>
     matchesIteration (ns @ ''-'' @ ms) i = Inr (nat_of_digits ns \<le> i \<and> i \<le> nat_of_digits ms)"
  by (simp only: matchesIteration_def parse_pattern_range option.case pattern_matches.simps)

lemma pattern_all: "matchesIteration ''all'' i = Inr True"
proof -
  have "parse_pattern ''all'' = Some MatchAll" unfolding parse_pattern_def by (simp only: if_True simp_thms)
  then show ?thesis by (simp only: matchesIteration_def option.case pattern_matches.simps)
qed

lemma select_first:
  assumes "\<forall>q \<in> set pre. matchesIteration (iterations q) i = Inr False"
    "matchesIteration (iterations r) i = Inr True"
  shows "selectModelRule (pre @ r # post) i = Inr r"
  using assms by (induction pre) auto

lemma select_none:
  assumes "\<forall>q \<in> set rules. matchesIteration (iterations q) i = Inr False"
  shows "selectModelRule rules i = Inl (NO_MODEL_RULE i)"
  using assms by (induction rules) auto

text \<open>
  Claim C2. The pattern \<open>"N"\<close> matches iteration \<open>N\<close> only, \<open>"N-M"\<close> the iterations from
  \<open>N\<close> to \<open>M\<close> inclusive, \<open>"N+"\<close> the iterations from \<open>N\<close> on and \<open>"all"\<close> every
  iteration. Selection returns the first declared rule whose pattern matches the current
  iteration, whatever the rules after it are, and fails with \<open>NO_MODEL_RULE\<close> for that
  iteration when no rule matches.
\<close>

theorem selectModelRule_first_match:
  "matchesIteration (string_of_nat n) i = Inr (i = n)
   \<and> matchesIteration (string_of_nat n @ ''-'' @ string_of_nat m) i = Inr (n \<le> i \<and> i \<le> m)
   \<and> matchesIteration (string_of_nat n @ ''+'') i = Inr (n \<le> i)
   \<and> matchesIteration ''all'' i = Inr True
   \<and> ((\<forall>q \<in> set pre. matchesIteration (iterations q) i = Inr False)
        \<and> matchesIteration (iterations r) i = Inr True
       \<longrightarrow> selectModelRule (pre @ r # post) i = Inr r)
   \<and> ((\<forall>q \<in> set rules. matchesIteration (iterations q) i = Inr False)
       \<longrightarrow> selectModelRule rules i = Inl (NO_MODEL_RULE i))"
proof -
  have n: "all_digits (string_of_nat n)" "nat_of_digits (string_of_nat n) = n"
    and m: "all_digits (string_of_nat m)" "nat_of_digits (string_of_nat m) = m"
    using string_of_nat_digits by blast+
  show ?thesis
    using pattern_exact[OF n(1), of i] pattern_range[OF n(1) m(1), of i] pattern_from[OF n(1), of i]
      pattern_all[of i] select_first[of pre i r post] select_none[of rules i]
    unfolding n(2) m(2) by blast
qed

theorem selectModelRule_first_match_witness:
  "selectModelRule [\<lparr>iterations = ''1-10'', rule_model = Some ''sonnet'', rule_modelLevel = None\<rparr>,
                    \<lparr>iterations = ''5+'', rule_model = Some ''opus'', rule_modelLevel = None\<rparr>] 7
     = Inr \<lparr>iterations = ''1-10'', rule_model = Some ''sonnet'', rule_modelLevel = None\<rparr>
   \<and> selectModelRule [\<lparr>iterations = ''1-2'', rule_model = Some ''sonnet'', rule_modelLevel = None\<rparr>] 5
     = Inl (NO_MODEL_RULE 5)"
proof -
  let ?r1 = "\<lparr>iterations = ''1-10'', rule_model = Some ''sonnet'', rule_modelLevel = None\<rparr>"
  let ?r2 = "\<lparr>iterations = ''5+'', rule_model = Some ''opus'', rule_modelLevel = None\<rparr>"
  let ?r3 = "\<lparr>iterations = ''1-2'', rule_model = Some ''sonnet'', rule_modelLevel = None\<rparr>"
  have s: "string_of_nat 1 = ''1''" "string_of_nat 10 = ''10''" "string_of_nat 2 = ''2''"
    by code_simp+
  note t1 = selectModelRule_first_match[of 1 7 10 "[]" ?r1 "[?r2]" "[]", unfolded s]
  note t2 = selectModelRule_first_match[of 1 5 2 "[]" ?r3 "[]" "[?r3]", unfolded s]
  have a: "matchesIteration (iterations ?r1) 7 = Inr True" using t1 by simp
  have b: "matchesIteration (iterations ?r3) 5 = Inr False" using t2 by simp
  have "selectModelRule ([] @ ?r1 # [?r2]) 7 = Inr ?r1" using t1 a by simp
  moreover have "selectModelRule [?r3] 5 = Inl (NO_MODEL_RULE 5)" using t2 b by simp
  ultimately show ?thesis by simp
qed

section \<open>Properties of loading the settings\<close>

lemma map_of_assign: "map_of (assign obj k v) = (map_of obj)(k \<mapsto> v)"
  by (induction obj k v rule: assign.induct) auto

lemma keys_assign: "fst ` set (assign obj k v) = insert k (fst ` set obj)"
  by (induction obj k v rule: assign.induct) auto

lemma distinct_assign: "distinct (map fst obj) \<Longrightarrow> distinct (map fst (assign obj k v))"
proof (induction obj k v rule: assign.induct)
  case (1 key x)
  then show ?case by simp
next
  case (2 k v kvs key x)
  then show ?case using keys_assign[of kvs key x] by (auto simp: image_iff)
qed

lemma map_of_assign_all: "map_of (assign_all base es) = map_of base ++ map_of (rev es)"
  unfolding assign_all_def
proof (induction es arbitrary: base)
  case Nil
  then show ?case by simp
next
  case (Cons e es)
  obtain k x where e: "e = (k, x)" by (cases e)
  have "map_of (foldl (\<lambda>obj (k, x). assign obj k x) base (e # es))
      = map_of (assign base k x) ++ map_of (rev es)" using Cons.IH[of "assign base k x"] e by simp
  also have "\<dots> = (map_of base ++ [k \<mapsto> x]) ++ map_of (rev es)" by (simp add: map_of_assign)
  also have "\<dots> = map_of base ++ map_of (rev (e # es))" by (simp add: e)
  finally show ?case .
qed

lemma distinct_assign_all:
  "distinct (map fst base) \<Longrightarrow> distinct (map fst (assign_all base es))"
  unfolding assign_all_def
proof (induction es arbitrary: base)
  case Nil
  then show ?case by simp
next
  case (Cons e es)
  obtain k x where e: "e = (k, x)" by (cases e)
  show ?case using Cons.IH[OF distinct_assign[OF Cons.prems, of k x]] e by simp
qed

lemma keys_assign_all: "fst ` set base \<subseteq> fst ` set (assign_all base es)"
  unfolding assign_all_def
proof (induction es arbitrary: base)
  case Nil
  then show ?case by simp
next
  case (Cons e es)
  obtain k x where e: "e = (k, x)" by (cases e)
  have "fst ` set base \<subseteq> fst ` set (assign base k x)" by (auto simp: keys_assign)
  then show ?case using Cons.IH[of "assign base k x"] e by auto
qed

lemma map_of_rev_distinct: "distinct (map fst es) \<Longrightarrow> map_of (rev es) = map_of es"
proof (induction es)
  case Nil
  then show ?case by simp
next
  case (Cons e es)
  obtain k x where e: "e = (k, x)" by (cases e)
  have k: "k \<notin> dom (map_of es)" using Cons.prems e by (auto simp: dom_map_of_conv_image_fst)
  have "map_of (rev (e # es)) = [k \<mapsto> x] ++ map_of es" using Cons e by simp
  also have "\<dots> = (map_of es)(k \<mapsto> x)"
  proof
    fix y show "([k \<mapsto> x] ++ map_of es) y = ((map_of es)(k \<mapsto> x)) y"
      using k by (auto simp: map_add_def split: option.splits)
  qed
  finally show ?case using e by simp
qed

lemma map_of_spread:
  "map_of (spread base v) = map_of base ++ map_of (rev (own_entries v))"
  by (simp add: spread_def map_of_assign_all)

lemma distinct_spread: "distinct (map fst base) \<Longrightarrow> distinct (map fst (spread base v))"
  by (simp add: spread_def distinct_assign_all)

lemma map_of_spread_object:
  "distinct (map fst kvs) \<Longrightarrow> map_of (spread base (Some (JObject kvs))) = map_of base ++ map_of kvs"
  by (simp add: map_of_spread map_of_rev_distinct)

lemma map_of_settings_of: "map_of (settings_of es) k = map_option Json (map_of es k)"
  unfolding settings_of_def by (induction es) auto

lemma keys_settings_of: "map fst (settings_of es) = map fst es"
  unfolding settings_of_def by (induction es) auto

lemma map_of_key: "k \<in> fst ` set es \<Longrightarrow> map_of es k \<noteq> None"
  by (simp add: map_of_eq_None_iff)

lemma key_of_map_of: "map_of es k \<noteq> None \<Longrightarrow> k \<in> fst ` set es"
  by (simp add: map_of_eq_None_iff)

lemma mergeProviderSettings_provider:
  "p \<in> set VALID_PROVIDERS \<Longrightarrow>
     map_of (mergeProviderSettings current overrides) p
       = Some (JObject (merge_provider current overrides p))"
  by (auto simp: mergeProviderSettings_def VALID_PROVIDERS_def map_of_assign)

lemma map_add_keeps: "m1 k \<noteq> None \<Longrightarrow> (m1 ++ m2) k \<noteq> None"
  by (auto simp: map_add_def split: option.splits)

lemma map_of_rev_keeps: "map_of es k \<noteq> None \<Longrightarrow> map_of (rev es) k \<noteq> None"
  by (simp add: map_of_eq_None_iff)

lemma merge_provider_keeps:
  assumes "map_of current p = Some (JObject d)" "map_of d k \<noteq> None"
  shows "map_of (merge_provider current overrides p) k \<noteq> None"
proof -
  let ?m = "spread (spread [] (map_of current p)) (or_empty (optional_member overrides p))"
  have "map_of (spread [] (map_of current p)) k \<noteq> None"
    using assms map_of_rev_keeps[of d k] by (simp add: map_of_spread)
  then have "map_of ?m k \<noteq> None" unfolding map_of_spread[of "spread [] (map_of current p)"]
    by (rule map_add_keeps)
  then show ?thesis by (simp add: merge_provider_def Let_def map_of_assign)
qed

lemma merge_provider_value:
  assumes "map_of current p = Some (JObject d)" "distinct (map fst d)" "k \<noteq> ''levelOverrides''"
  shows "map_of (merge_provider current overrides p) k
          = (case map_of (rev (own_entries (or_empty (optional_member overrides p)))) k of
               Some v \<Rightarrow> Some v | None \<Rightarrow> map_of d k)"
proof -
  let ?m = "spread (spread [] (map_of current p)) (or_empty (optional_member overrides p))"
  have "map_of (spread [] (map_of current p)) = map_of d"
    using assms(1,2) by (simp add: map_of_spread_object)
  then have "map_of ?m k = (map_of d ++ map_of (rev (own_entries (or_empty (optional_member overrides p))))) k"
    by (simp add: map_of_spread[of "spread [] (map_of current p)"])
  moreover have "map_of (merge_provider current overrides p) k = map_of ?m k"
    using assms(3) by (simp add: merge_provider_def Let_def map_of_assign)
  ultimately show ?thesis by (simp add: map_add_def)
qed

lemma merge_provider_levelOverrides:
  "truthy_opt (map_of (merge_provider current overrides p) ''levelOverrides'')"
  by (simp add: merge_provider_def Let_def map_of_assign)

lemma level_rank_valid:
  "l \<in> set VALID_LEVELS \<Longrightarrow> level_rank (Some (JString l)) f = Some (Rank (level_number l))"
  by (auto simp: VALID_LEVELS_def level_rank_def level_number_def LEVEL_RANKS_def)

lemma level_rank_string: "level_rank (Some (JString l)) f \<noteq> None"
  by (simp add: level_rank_def)

lemma mapLegacy_valid: "mapLegacyModelToLevel m = Some l \<Longrightarrow> l \<in> set VALID_LEVELS"
  by (auto simp: mapLegacyModelToLevel_def VALID_LEVELS_def split: if_splits)

lemma mapLegacy_table:
  "mapLegacyModelToLevel m =
     (case m of
        Some (Json (JString name)) \<Rightarrow>
          map_of [(''haiku'', ''level1''), (''sonnet'', ''level2''), (''opus'', ''level3'')] name
      | _ \<Rightarrow> None)"
  by (auto simp: mapLegacyModelToLevel_def split: option.splits jsvalue.splits json.splits)

lemma level_number_simps:
  "level_number ''level1'' = 1" "level_number ''level2'' = 2" "level_number ''level3'' = 3"
  by (simp_all add: level_number_def LEVEL_RANKS_def)

lemma with_legacy_levels_map:
  "map_of (with_legacy_levels maxM minM claude) ''maxLevel'' =
     (case mapLegacyModelToLevel maxM of
        Some l \<Rightarrow> Some (JString l) | None \<Rightarrow> map_of claude ''maxLevel'')"
  "map_of (with_legacy_levels maxM minM claude) ''minLevel'' =
     (case mapLegacyModelToLevel minM of
        Some l \<Rightarrow> Some (JString l) | None \<Rightarrow> map_of claude ''minLevel'')"
  "k \<noteq> ''maxLevel'' \<Longrightarrow> k \<noteq> ''minLevel'' \<Longrightarrow>
     map_of (with_legacy_levels maxM minM claude) k = map_of claude k"
  "map_of claude k \<noteq> None \<Longrightarrow> map_of (with_legacy_levels maxM minM claude) k \<noteq> None"
  by (auto simp: with_legacy_levels_def Let_def map_of_assign split: option.splits)

lemma apply_bounds_unfold:
  assumes "level_rank (map_of (with_legacy_levels maxM minM claude) ''minLevel'') 1 = Some minRank"
    "level_rank (map_of (with_legacy_levels maxM minM claude) ''maxLevel'') 3 = Some maxRank"
    "level_rank (map_of (with_legacy_levels maxM minM claude) ''defaultLevel'') 2 = Some defaultRank"
    "c2 = with_legacy_levels maxM minM claude"
  shows "apply_bounds maxM minM claude =
          Inr (if rank_gt minRank maxRank then
                    assign (assign c2 ''minLevel'' (JString ''level1'')) ''maxLevel'' (JString ''level3'')
                  else if rank_gt minRank defaultRank then
                    (case map_of c2 ''minLevel'' of
                       Some l \<Rightarrow> assign c2 ''defaultLevel'' l | None \<Rightarrow> c2)
                  else if rank_gt defaultRank maxRank then
                    (case map_of c2 ''maxLevel'' of
                       Some l \<Rightarrow> assign c2 ''defaultLevel'' l | None \<Rightarrow> c2)
                  else c2)"
  using assms(1,2,3) unfolding assms(4) apply_bounds_def Let_def by simp

lemma apply_bounds_error:
  "isl (apply_bounds maxM minM claude) \<longleftrightarrow>
     level_rank (map_of (with_legacy_levels maxM minM claude) ''minLevel'') 1 = None
   \<or> level_rank (map_of (with_legacy_levels maxM minM claude) ''maxLevel'') 3 = None
   \<or> level_rank (map_of (with_legacy_levels maxM minM claude) ''defaultLevel'') 2 = None"
  unfolding apply_bounds_def Let_def by (simp split: option.splits)

lemma apply_bounds_keeps:
  assumes "apply_bounds maxM minM claude = Inr c'"
  shows "(map_of claude k \<noteq> None \<longrightarrow> map_of c' k \<noteq> None)
       \<and> (k \<noteq> ''maxLevel'' \<and> k \<noteq> ''minLevel'' \<and> k \<noteq> ''defaultLevel'' \<longrightarrow> map_of c' k = map_of claude k)"
proof -
  define c2 where "c2 = with_legacy_levels maxM minM claude"
  note l = with_legacy_levels_map[where maxM = maxM and minM = minM and claude = claude, folded c2_def]
  have "\<not> isl (apply_bounds maxM minM claude)" using assms by simp
  then obtain minRank maxRank defaultRank where
    r: "level_rank (map_of (with_legacy_levels maxM minM claude) ''minLevel'') 1 = Some minRank"
      "level_rank (map_of (with_legacy_levels maxM minM claude) ''maxLevel'') 3 = Some maxRank"
      "level_rank (map_of (with_legacy_levels maxM minM claude) ''defaultLevel'') 2 = Some defaultRank"
    unfolding apply_bounds_error by auto
  note u = apply_bounds_unfold[OF r c2_def]
  have c': "c' = (if rank_gt minRank maxRank then
                    assign (assign c2 ''minLevel'' (JString ''level1'')) ''maxLevel'' (JString ''level3'')
                  else if rank_gt minRank defaultRank then
                    (case map_of c2 ''minLevel'' of
                       Some l \<Rightarrow> assign c2 ''defaultLevel'' l | None \<Rightarrow> c2)
                  else if rank_gt defaultRank maxRank then
                    (case map_of c2 ''maxLevel'' of
                       Some l \<Rightarrow> assign c2 ''defaultLevel'' l | None \<Rightarrow> c2)
                  else c2)"
    using u assms by simp
  have 1: "map_of c2 k \<noteq> None \<longrightarrow> map_of c' k \<noteq> None"
    unfolding c' by (simp add: map_of_assign split: option.splits)
  have 2: "k \<noteq> ''maxLevel'' \<and> k \<noteq> ''minLevel'' \<and> k \<noteq> ''defaultLevel'' \<longrightarrow> map_of c' k = map_of c2 k"
    unfolding c' by (simp add: map_of_assign split: option.splits)
  have 3: "map_of claude k \<noteq> None \<longrightarrow> map_of c' k \<noteq> None" using 1 l(4)[of k] by simp
  have 4: "k \<noteq> ''maxLevel'' \<and> k \<noteq> ''minLevel'' \<and> k \<noteq> ''defaultLevel'' \<longrightarrow> map_of c' k = map_of claude k"
    using 2 l(3)[of k] by simp
  show ?thesis using 3 4 by (rule conjI)
qed

lemma apply_bounds_valid:
  assumes c: "map_of claude ''minLevel'' = Some (JString cmin)"
      "map_of claude ''maxLevel'' = Some (JString cmax)"
      "map_of claude ''defaultLevel'' = Some (JString d)"
    and valid: "cmin \<in> set VALID_LEVELS" "cmax \<in> set VALID_LEVELS" "d \<in> set VALID_LEVELS"
    and hi: "hi = (case mapLegacyModelToLevel maxM of Some l \<Rightarrow> l | None \<Rightarrow> cmax)"
    and lo: "lo = (case mapLegacyModelToLevel minM of Some l \<Rightarrow> l | None \<Rightarrow> cmin)"
  shows "\<exists>c'. apply_bounds maxM minM claude = Inr c'
          \<and> (if level_number lo > level_number hi
              then map_of c' ''minLevel'' = Some (JString ''level1'')
                 \<and> map_of c' ''maxLevel'' = Some (JString ''level3'')
                 \<and> map_of c' ''defaultLevel'' = Some (JString d)
              else map_of c' ''minLevel'' = Some (JString lo)
                 \<and> map_of c' ''maxLevel'' = Some (JString hi)
                 \<and> map_of c' ''defaultLevel'' =
                     Some (JString (if level_number d < level_number lo then lo
                                    else if level_number d > level_number hi then hi else d)))"
proof -
  define c2 where "c2 = with_legacy_levels maxM minM claude"
  note l = with_legacy_levels_map[where maxM = maxM and minM = minM and claude = claude, folded c2_def]
  have m2: "map_of c2 ''maxLevel'' = Some (JString hi)" using l(1) c(2) hi by (simp split: option.splits)
  have n2: "map_of c2 ''minLevel'' = Some (JString lo)" using l(2) c(1) lo by (simp split: option.splits)
  have d2: "map_of c2 ''defaultLevel'' = Some (JString d)" using l(3)[of "''defaultLevel''"] c(3) by simp
  have vhi: "hi \<in> set VALID_LEVELS" using hi valid(2) mapLegacy_valid by (auto split: option.splits)
  have vlo: "lo \<in> set VALID_LEVELS" using lo valid(1) mapLegacy_valid by (auto split: option.splits)
  have r: "level_rank (map_of (with_legacy_levels maxM minM claude) ''minLevel'') 1 = Some (Rank (level_number lo))"
      "level_rank (map_of (with_legacy_levels maxM minM claude) ''maxLevel'') 3 = Some (Rank (level_number hi))"
      "level_rank (map_of (with_legacy_levels maxM minM claude) ''defaultLevel'') 2 = Some (Rank (level_number d))"
    using m2 n2 d2 level_rank_valid vhi vlo valid(3) unfolding c2_def by simp_all
  note u = apply_bounds_unfold[OF r c2_def]
  show ?thesis
  proof (cases "level_number lo > level_number hi")
    case True
    then show ?thesis unfolding u using d2 by (simp add: map_of_assign)
  next
    case False
    show ?thesis
    proof (cases "level_number d < level_number lo")
      case True
      then show ?thesis unfolding u using False m2 n2 by (simp add: map_of_assign)
    next
      case nlt: False
      show ?thesis
      proof (cases "level_number d > level_number hi")
        case True
        then show ?thesis unfolding u using False nlt m2 n2 by (simp add: map_of_assign)
      next
        case ngt: False
        then show ?thesis unfolding u using False nlt m2 n2 d2 by simp
      qed
    qed
  qed
qed

lemma default_providers:
  "own_entries (map_of DEFAULT_SETTINGS ''providerSettings'') =
     [(''claude'', default_provider_settings), (''codex'', default_provider_settings),
      (''gemini'', default_provider_settings)]"
  by (simp add: DEFAULT_SETTINGS_def)

lemma default_provider_entry:
  assumes "p \<in> set VALID_PROVIDERS"
  shows "map_of (own_entries (map_of DEFAULT_SETTINGS ''providerSettings'')) p
          = Some (JObject [(''maxLevel'', JString ''level3''), (''minLevel'', JString ''level1''),
              (''defaultLevel'', JString ''level2''), (''levelOverrides'', JObject [])])"
  using assms by (auto simp: default_providers VALID_PROVIDERS_def default_provider_settings_def)

lemma distinct_DEFAULT_SETTINGS: "distinct (map fst DEFAULT_SETTINGS)"
  by (simp add: DEFAULT_SETTINGS_def)

lemma merge_with_defaults_providerSettings:
  "map_of (merge_with_defaults js n) ''providerSettings''
     = Some (Json (JObject (mergeProviderSettings
          (own_entries (map_of DEFAULT_SETTINGS ''providerSettings''))
          (map_of n ''providerSettings''))))"
  by (simp add: merge_with_defaults_def Let_def map_of_assign)

lemma merge_with_defaults_other:
  assumes "k \<noteq> ''defaultProvider''" "k \<noteq> ''providerSettings''"
  shows "map_of (merge_with_defaults js n) k =
           (case map_of (rev n) k of Some v \<Rightarrow> Some v | None \<Rightarrow> map_of (settings_of DEFAULT_SETTINGS) k)"
proof -
  have "map_of (merge_with_defaults js n) k = map_of (assign_all (settings_of DEFAULT_SETTINGS) n) k"
    using assms by (simp add: merge_with_defaults_def Let_def map_of_assign)
  then show ?thesis by (simp add: map_of_assign_all map_add_def)
qed

lemma merge_with_defaults_keeps:
  assumes "k \<in> set (map fst DEFAULT_SETTINGS)"
  shows "map_of (merge_with_defaults js n) k \<noteq> None"
proof -
  have "k \<in> fst ` set (settings_of DEFAULT_SETTINGS)"
    using assms keys_settings_of[of DEFAULT_SETTINGS] by (metis set_map)
  then have "k \<in> fst ` set (assign_all (settings_of DEFAULT_SETTINGS) n)"
    using keys_assign_all by blast
  then have "map_of (assign_all (settings_of DEFAULT_SETTINGS) n) k \<noteq> None" by (rule map_of_key)
  then show ?thesis by (simp add: merge_with_defaults_def Let_def map_of_assign)
qed

lemma applyLegacyModelBounds_result:
  assumes "map_of s ''providerSettings'' = Some (Json (JObject ps))"
    "map_of ps ''claude'' = Some (JObject c)"
  shows "applyLegacyModelBounds s =
          (case apply_bounds (map_of s ''maxModel'') (map_of s ''minModel'') c of
             Inl e \<Rightarrow> Inl e
           | Inr c' \<Rightarrow> Inr (assign s ''providerSettings''
                             (Json (JObject (assign ps ''claude'' (JObject c'))))))"
  using assms by (simp add: applyLegacyModelBounds_def or_empty_def Let_def)

lemma provider_setting_assigned:
  "provider_setting (assign s ''providerSettings'' (Json (JObject (assign ps ''claude'' (JObject c'))))) p k
     = (if p = ''claude'' then map_of c' k
        else (case map_of ps p of None \<Rightarrow> None | Some v \<Rightarrow> get_prop v k))"
  by (auto simp: provider_setting_def map_of_assign split: option.splits)

lemma provider_setting_default:
  assumes "p \<in> set VALID_PROVIDERS"
  shows "provider_setting (settings_of DEFAULT_SETTINGS) p k = get_prop default_provider_settings k"
  using assms
  by (auto simp: provider_setting_def map_of_settings_of DEFAULT_SETTINGS_def VALID_PROVIDERS_def
       split: option.splits)

text \<open>The settings that the \<open>try\<close> block of \<open>loadSettings\<close> returns.\<close>

lemma loaded_settings:
  assumes "normalizeLoadedSettings js v = Inr n"
    and "apply_bounds (map_of (merge_with_defaults js n) ''maxModel'')
           (map_of (merge_with_defaults js n) ''minModel'')
           (merge_provider (own_entries (map_of DEFAULT_SETTINGS ''providerSettings''))
              (map_of n ''providerSettings'') ''claude'') = r"
  shows "applyLegacyModelBounds (merge_with_defaults js n) =
          (case r of
             Inl e \<Rightarrow> Inl e
           | Inr c' \<Rightarrow>
               Inr (assign (merge_with_defaults js n) ''providerSettings''
                     (Json (JObject (assign (mergeProviderSettings
                         (own_entries (map_of DEFAULT_SETTINGS ''providerSettings''))
                         (map_of n ''providerSettings'')) ''claude'' (JObject c'))))))"
proof -
  have c: "''claude'' \<in> set VALID_PROVIDERS" by (simp add: VALID_PROVIDERS_def)
  show ?thesis
    using applyLegacyModelBounds_result[OF merge_with_defaults_providerSettings
        mergeProviderSettings_provider[OF c]] assms(2) by simp
qed

lemma loaded_top_level:
  assumes "applyLegacyModelBounds (merge_with_defaults js n) = Inr s" "k \<noteq> ''providerSettings''"
  shows "map_of s k = map_of (merge_with_defaults js n) k"
proof -
  obtain r where r: "apply_bounds (map_of (merge_with_defaults js n) ''maxModel'')
           (map_of (merge_with_defaults js n) ''minModel'')
           (merge_provider (own_entries (map_of DEFAULT_SETTINGS ''providerSettings''))
              (map_of n ''providerSettings'') ''claude'') = r" by blast
  have c: "''claude'' \<in> set VALID_PROVIDERS" by (simp add: VALID_PROVIDERS_def)
  note a = applyLegacyModelBounds_result[OF merge_with_defaults_providerSettings
        mergeProviderSettings_provider[OF c], of js n]
  show ?thesis using assms a by (auto simp: map_of_assign split: sum.splits)
qed

lemma loaded_provider_setting:
  assumes "applyLegacyModelBounds (merge_with_defaults js n) = Inr s" "p \<in> set VALID_PROVIDERS"
  shows "\<exists>c'. apply_bounds (map_of (merge_with_defaults js n) ''maxModel'')
           (map_of (merge_with_defaults js n) ''minModel'')
           (merge_provider (own_entries (map_of DEFAULT_SETTINGS ''providerSettings''))
              (map_of n ''providerSettings'') ''claude'') = Inr c'
         \<and> provider_setting s p k =
            (if p = ''claude'' then map_of c' k
             else map_of (merge_provider (own_entries (map_of DEFAULT_SETTINGS ''providerSettings''))
                    (map_of n ''providerSettings'') p) k)"
proof -
  have c: "''claude'' \<in> set VALID_PROVIDERS" by (simp add: VALID_PROVIDERS_def)
  note a = applyLegacyModelBounds_result[OF merge_with_defaults_providerSettings
        mergeProviderSettings_provider[OF c], of js n]
  from assms(1) a obtain c' where c': "apply_bounds (map_of (merge_with_defaults js n) ''maxModel'')
           (map_of (merge_with_defaults js n) ''minModel'')
           (merge_provider (own_entries (map_of DEFAULT_SETTINGS ''providerSettings''))
              (map_of n ''providerSettings'') ''claude'') = Inr c'"
    and s: "s = assign (merge_with_defaults js n) ''providerSettings''
                     (Json (JObject (assign (mergeProviderSettings
                         (own_entries (map_of DEFAULT_SETTINGS ''providerSettings''))
                         (map_of n ''providerSettings'')) ''claude'' (JObject c'))))"
    by (auto split: sum.splits)
  have "provider_setting s p k =
            (if p = ''claude'' then map_of c' k
             else map_of (merge_provider (own_entries (map_of DEFAULT_SETTINGS ''providerSettings''))
                    (map_of n ''providerSettings'') p) k)"
    unfolding s provider_setting_assigned
    by (simp add: mergeProviderSettings_provider[OF assms(2)])
  then show ?thesis using c' by blast
qed

lemma normalizeLoadedSettings_null: "normalizeLoadedSettings js JNull = Inl TypeError"
  by (simp add: normalizeLoadedSettings_def)

lemma normalizeLoadedSettings_object:
  assumes "distinct (map fst p)"
  shows "\<exists>n. normalizeLoadedSettings js (JObject p) = Inr n \<and> distinct (map fst n)
           \<and> (\<forall>k. k \<noteq> ''defaultProvider'' \<and> k \<noteq> ''providerSettings'' \<longrightarrow>
                 map_of n k = map_option Json (map_of p k))
           \<and> map_of n ''providerSettings'' =
               (if truthy_opt (map_of p ''providerSettings'')
                then Some (normalizeProviderSettings js (the (map_of p ''providerSettings'')))
                else map_option Json (map_of p ''providerSettings''))"
proof -
  let ?n0 = "settings_of (spread [] (Some (JObject p)))"
  have "distinct (map fst (spread [] (Some (JObject p))))" by (rule distinct_spread) simp
  then have d0: "distinct (map fst ?n0)" by (simp add: keys_settings_of)
  have m0: "map_of ?n0 k = map_option Json (map_of p k)" for k
    by (simp add: map_of_settings_of map_of_spread_object[OF assms])
  show ?thesis
    using d0 m0 by (simp add: normalizeLoadedSettings_def Let_def map_of_assign distinct_assign)
qed

lemma optional_member_falsy:
  "\<not> truthy_opt v \<Longrightarrow> optional_member (map_option Json v) name = None"
proof (cases v)
  case None
  then show ?thesis by (simp add: optional_member_def)
next
  case (Some x)
  assume "\<not> truthy_opt v"
  then show ?thesis using Some by (cases x) (simp_all add: optional_member_def)
qed

lemma merge_provider_default:
  assumes "p \<in> set VALID_PROVIDERS" "optional_member overrides p = None"
  shows "merge_provider (own_entries (map_of DEFAULT_SETTINGS ''providerSettings'')) overrides p
          = [(''maxLevel'', JString ''level3''), (''minLevel'', JString ''level1''),
              (''defaultLevel'', JString ''level2''), (''levelOverrides'', JObject [])]"
  unfolding merge_provider_def default_provider_entry[OF assms(1)] assms(2)
  by (simp add: or_empty_def spread_def assign_all_def)

lemma normalizeProviderName_canonical:
  assumes "name \<in> set VALID_PROVIDERS" "toLowerCase js name = name"
  shows "normalizeProviderName js (Json (JString name)) = Json (JString name)"
  using assms
  by (auto simp: normalizeProviderName_def alias_lookup_def PROVIDER_ALIASES_def VALID_PROVIDERS_def)

lemma assign_append: "k \<notin> fst ` set kvs \<Longrightarrow> assign kvs k x = kvs @ [(k, x)]"
  by (induction kvs) auto

lemma normalize_entry_canonical:
  assumes "name \<in> set VALID_PROVIDERS" "toLowerCase js name = name" "name \<notin> fst ` set own"
  shows "normalize_entry js (None, own) (name, v)
          = (None, own @ [(name, JObject (spread [] (or_empty (Some v))))])"
proof -
  have m: "map_of own name = None" using assms(3) by (simp add: map_of_eq_None_iff)
  have "normalized_member (None, own) name = None" by (simp add: normalized_member_def m)
  then have "spread [] (or_empty (normalized_member (None, own) name)) = []"
    by (simp add: or_empty_def spread_def assign_all_def)
  then show ?thesis
    using assms(1) by (simp add: normalize_entry_def normalizeProviderName_canonical[OF assms(1,2)]
        assign_append[OF assms(3)])
qed

lemma foldl_normalize_canonical:
  assumes "\<forall>name \<in> set (map fst es). name \<in> set VALID_PROVIDERS \<and> toLowerCase js name = name"
    "distinct (map fst es)" "fst ` set es \<inter> fst ` set own = {}"
  shows "foldl (normalize_entry js) (None, own) es
          = (None, own @ map (\<lambda>(k, v). (k, JObject (spread [] (or_empty (Some v))))) es)"
  using assms
proof (induction es arbitrary: own)
  case Nil
  then show ?case by simp
next
  case (Cons e es)
  obtain name v where e: "e = (name, v)" by (cases e)
  have n: "name \<in> set VALID_PROVIDERS" "toLowerCase js name = name" using Cons.prems(1) e by auto
  have notin: "name \<notin> fst ` set own" using Cons.prems(3) e by auto
  let ?own = "own @ [(name, JObject (spread [] (or_empty (Some v))))]"
  have step: "normalize_entry js (None, own) e = (None, ?own)"
    unfolding e by (rule normalize_entry_canonical[OF n notin])
  have 1: "\<forall>name \<in> set (map fst es). name \<in> set VALID_PROVIDERS \<and> toLowerCase js name = name"
    using Cons.prems(1) by simp
  have 2: "distinct (map fst es)" using Cons.prems(2) by simp
  have "name \<notin> fst ` set es" using Cons.prems(2) e by (simp add: image_iff)
  then have 3: "fst ` set es \<inter> fst ` set ?own = {}" using Cons.prems(3) by auto
  show ?case using Cons.IH[OF 1 2 3] step e by simp
qed

lemma aliasFirst_canonical:
  assumes "\<forall>name \<in> set (map fst es). name \<in> set VALID_PROVIDERS \<and> toLowerCase js name = name"
  shows "aliasFirst js es = es"
proof -
  have "\<forall>(k, v) \<in> set es. isCanonical js k"
    using assms normalizeProviderName_canonical by (fastforce simp: isCanonical_def)
  then have "filter (\<lambda>(k, v). \<not> isCanonical js k) es = []" "filter (\<lambda>(k, v). isCanonical js k) es = es"
    by (auto simp: filter_empty_conv filter_id_conv)
  then show ?thesis by (simp add: aliasFirst_def)
qed

lemma normalizeProviderSettings_canonical:
  assumes "\<forall>name \<in> set (map fst q). name \<in> set VALID_PROVIDERS \<and> toLowerCase js name = name"
    "distinct (map fst q)"
  shows "normalizeProviderSettings js (JObject q)
          = Json (JObject (map (\<lambda>(k, v). (k, JObject (spread [] (or_empty (Some v))))) q))"
  using foldl_normalize_canonical[OF assms, of "[]"]
  by (simp add: normalizeProviderSettings_def aliasFirst_canonical[OF assms(1)])

lemma map_of_map_values: "map_of (map (\<lambda>(k, v). (k, f v)) es) k = map_option f (map_of es k)"
  by (induction es) auto

lemma merged_provider_value:
  assumes canon: "\<forall>name \<in> set (map fst q). name \<in> set VALID_PROVIDERS \<and> toLowerCase js name = name"
      "distinct (map fst q)"
    and objs: "\<forall>v \<in> set (map snd q). \<exists>ob. v = JObject ob \<and> distinct (map fst ob)"
    and p: "provider \<in> set VALID_PROVIDERS" and k: "key \<noteq> ''levelOverrides''"
  shows "map_of (merge_provider (own_entries (map_of DEFAULT_SETTINGS ''providerSettings''))
                   (Some (normalizeProviderSettings js (JObject q))) provider) key
          = (case map_of q provider of
               Some (JObject ob) \<Rightarrow>
                 (case map_of ob key of Some v \<Rightarrow> Some v
                  | None \<Rightarrow> get_prop default_provider_settings key)
             | _ \<Rightarrow> get_prop default_provider_settings key)"
proof -
  let ?d = "[(''maxLevel'', JString ''level3''), (''minLevel'', JString ''level1''),
              (''defaultLevel'', JString ''level2''), (''levelOverrides'', JObject [])]"
  let ?ov = "Some (normalizeProviderSettings js (JObject q))"
  have om: "optional_member ?ov provider
        = map_option (\<lambda>v. JObject (spread [] (or_empty (Some v)))) (map_of q provider)"
    by (simp add: normalizeProviderSettings_canonical[OF canon] optional_member_def map_of_map_values)
  have dd: "distinct (map fst ?d)" by simp
  note mv = merge_provider_value[OF default_provider_entry[OF p] dd k, of ?ov]
  have gd: "get_prop default_provider_settings key = map_of ?d key"
    by (simp add: default_provider_settings_def)
  show ?thesis
  proof (cases "map_of q provider")
    case None
    then have "optional_member ?ov provider = None" using om by simp
    then have "map_of (rev (own_entries (or_empty (optional_member ?ov provider)))) key = None"
      by (simp add: or_empty_def)
    then have "map_of (merge_provider (own_entries (map_of DEFAULT_SETTINGS ''providerSettings''))
                   ?ov provider) key = map_of ?d key"
      unfolding mv by (simp only: option.case)
    then show ?thesis unfolding gd None by (simp only: option.case)
  next
    case (Some v)
    then have "v \<in> set (map snd q)" by (metis map_of_SomeD image_eqI snd_conv set_map)
    then obtain ob where o: "v = JObject ob" "distinct (map fst ob)" using objs by blast
    let ?x = "spread [] (Some (JObject ob))"
    have x: "distinct (map fst ?x)" "map_of ?x = map_of ob"
      by (simp_all add: distinct_spread map_of_spread_object[OF o(2)])
    have "optional_member ?ov provider = Some (JObject ?x)"
      using om Some o by (simp add: or_empty_def)
    then have "own_entries (or_empty (optional_member ?ov provider)) = ?x"
      by (simp add: or_empty_def)
    then have "map_of (rev (own_entries (or_empty (optional_member ?ov provider)))) key = map_of ob key"
      using map_of_rev_distinct[OF x(1)] x(2) by simp
    then have "map_of (merge_provider (own_entries (map_of DEFAULT_SETTINGS ''providerSettings''))
                   ?ov provider) key
        = (case map_of ob key of Some v \<Rightarrow> Some v | None \<Rightarrow> map_of ?d key)"
      unfolding mv by (simp only:)
    then show ?thesis unfolding gd Some o(1) by (simp only: option.case json.case)
  qed
qed

lemma default_settings_keys:
  assumes "k \<in> set (map fst DEFAULT_SETTINGS)"
  shows "map_of (settings_of DEFAULT_SETTINGS) k \<noteq> None"
proof -
  have "map_of DEFAULT_SETTINGS k \<noteq> None" using assms by (intro map_of_key) simp
  then show ?thesis by (simp add: map_of_settings_of)
qed

lemma default_provider_keys:
  assumes "p \<in> set VALID_PROVIDERS"
    "k \<in> set [''maxLevel'', ''minLevel'', ''defaultLevel'', ''levelOverrides'']"
  shows "provider_setting (settings_of DEFAULT_SETTINGS) p k \<noteq> None"
  using assms(2) unfolding provider_setting_default[OF assms(1)]
  by (auto simp: default_provider_settings_def)

lemma default_levelOverrides:
  assumes "p \<in> set VALID_PROVIDERS"
  shows "truthy_opt (provider_setting (settings_of DEFAULT_SETTINGS) p ''levelOverrides'')"
  unfolding provider_setting_default[OF assms] by (simp add: default_provider_settings_def)

lemma loadSettings_cases:
  assumes "loadSettings js parse settingsFile = Inr s"
  shows "s = settings_of DEFAULT_SETTINGS
       \<or> (\<exists>n. applyLegacyModelBounds (merge_with_defaults js n) = Inr s)"
proof (cases settingsFile)
  case (FileText body)
  show ?thesis
  proof (cases "load_from_text js parse body")
    case (Inl e)
    then show ?thesis using assms FileText by (simp add: loadSettings_def)
  next
    case (Inr s')
    then have "s' = s" using assms FileText by (simp add: loadSettings_def)
    then show ?thesis using Inr by (auto simp: load_from_text_def split: option.splits sum.splits)
  qed
qed (use assms in \<open>simp_all add: loadSettings_def\<close>)

lemma loaded_keys:
  assumes a: "applyLegacyModelBounds (merge_with_defaults js n) = Inr s"
  shows "(\<forall>k \<in> set (map fst DEFAULT_SETTINGS). map_of s k \<noteq> None)
       \<and> (\<forall>p \<in> set VALID_PROVIDERS.
            \<forall>k \<in> set [''maxLevel'', ''minLevel'', ''defaultLevel'', ''levelOverrides''].
              provider_setting s p k \<noteq> None)
       \<and> (\<forall>p \<in> set VALID_PROVIDERS. truthy_opt (provider_setting s p ''levelOverrides''))"
proof -
  let ?dps = "own_entries (map_of DEFAULT_SETTINGS ''providerSettings'')"
  let ?d = "[(''maxLevel'', JString ''level3''), (''minLevel'', JString ''level1''),
              (''defaultLevel'', JString ''level2''), (''levelOverrides'', JObject [])]"
  have prov: "provider_setting s p k \<noteq> None"
    if p: "p \<in> set VALID_PROVIDERS"
      and k: "k \<in> set [''maxLevel'', ''minLevel'', ''defaultLevel'', ''levelOverrides'']" for p k
  proof -
    have dk: "map_of ?d k \<noteq> None" using k by auto
    have mk: "map_of (merge_provider ?dps (map_of n ''providerSettings'') q) k \<noteq> None"
      if "q \<in> set VALID_PROVIDERS" for q
      using merge_provider_keeps[OF default_provider_entry[OF that] dk] .
    from loaded_provider_setting[OF a p, of k] obtain c' where
      c': "apply_bounds (map_of (merge_with_defaults js n) ''maxModel'')
           (map_of (merge_with_defaults js n) ''minModel'')
           (merge_provider ?dps (map_of n ''providerSettings'') ''claude'') = Inr c'"
      and ps: "provider_setting s p k =
            (if p = ''claude'' then map_of c' k
             else map_of (merge_provider ?dps (map_of n ''providerSettings'') p) k)" by blast
    show ?thesis
    proof (cases "p = ''claude''")
      case True
      have "map_of c' k \<noteq> None" using apply_bounds_keeps[OF c', of k] mk[of "''claude''"] p True by blast
      then show ?thesis using ps True by simp
    next
      case False
      then show ?thesis using ps mk[OF p] by simp
    qed
  qed
  have top: "map_of s k \<noteq> None" if k: "k \<in> set (map fst DEFAULT_SETTINGS)" for k
  proof (cases "k = ''providerSettings''")
    case True
    have "provider_setting s ''claude'' ''maxLevel'' \<noteq> None"
      by (rule prov) (simp_all add: VALID_PROVIDERS_def)
    then show ?thesis using True by (auto simp: provider_setting_def split: option.splits)
  next
    case False
    then show ?thesis using loaded_top_level[OF a False] merge_with_defaults_keeps[OF k] by simp
  qed
  have lov: "truthy_opt (provider_setting s p ''levelOverrides'')" if p: "p \<in> set VALID_PROVIDERS" for p
  proof -
    from loaded_provider_setting[OF a p, of "''levelOverrides''"] obtain c' where
      c': "apply_bounds (map_of (merge_with_defaults js n) ''maxModel'')
           (map_of (merge_with_defaults js n) ''minModel'')
           (merge_provider ?dps (map_of n ''providerSettings'') ''claude'') = Inr c'"
      and ps: "provider_setting s p ''levelOverrides'' =
            (if p = ''claude'' then map_of c' ''levelOverrides''
             else map_of (merge_provider ?dps (map_of n ''providerSettings'') p) ''levelOverrides'')"
      by blast
    have "map_of c' ''levelOverrides''
        = map_of (merge_provider ?dps (map_of n ''providerSettings'') ''claude'') ''levelOverrides''"
      using apply_bounds_keeps[OF c', of "''levelOverrides''"] by simp
    then have "provider_setting s p ''levelOverrides''
        = map_of (merge_provider ?dps (map_of n ''providerSettings'') p) ''levelOverrides''"
      using ps by simp
    then show ?thesis using merge_provider_levelOverrides by simp
  qed
  show ?thesis using prov top lov by blast
qed

lemma load_object:
  assumes "parse t = Some (JObject p)" "distinct (map fst p)"
  shows "\<exists>n. load_from_text js parse t = applyLegacyModelBounds (merge_with_defaults js n)
           \<and> normalizeLoadedSettings js (JObject p) = Inr n \<and> distinct (map fst n)
           \<and> (\<forall>k. k \<noteq> ''defaultProvider'' \<and> k \<noteq> ''providerSettings'' \<longrightarrow>
                 map_of n k = map_option Json (map_of p k))
           \<and> map_of n ''providerSettings'' =
               (if truthy_opt (map_of p ''providerSettings'')
                then Some (normalizeProviderSettings js (the (map_of p ''providerSettings'')))
                else map_option Json (map_of p ''providerSettings''))"
proof -
  from normalizeLoadedSettings_object[OF assms(2), of js] obtain n where
    n: "normalizeLoadedSettings js (JObject p) = Inr n" "distinct (map fst n)"
       "\<forall>k. k \<noteq> ''defaultProvider'' \<and> k \<noteq> ''providerSettings'' \<longrightarrow>
                 map_of n k = map_option Json (map_of p k)"
       "map_of n ''providerSettings'' =
               (if truthy_opt (map_of p ''providerSettings'')
                then Some (normalizeProviderSettings js (the (map_of p ''providerSettings'')))
                else map_option Json (map_of p ''providerSettings''))" by blast
  have "load_from_text js parse t = applyLegacyModelBounds (merge_with_defaults js n)"
    using assms(1) n(1) by (simp add: load_from_text_def)
  then show ?thesis using n by blast
qed

lemma merged_top_level:
  assumes "distinct (map fst n)" "k \<noteq> ''defaultProvider''" "k \<noteq> ''providerSettings''"
    "map_of n k = map_option Json (map_of p k)"
  shows "map_of (merge_with_defaults js n) k =
           (case map_of p k of Some v \<Rightarrow> Some (Json v) | None \<Rightarrow> map_of (settings_of DEFAULT_SETTINGS) k)"
  using assms by (simp add: merge_with_defaults_other map_of_rev_distinct split: option.splits)

lemma default_claude_no_error:
  "\<not> isl (apply_bounds maxM minM
        [(''maxLevel'', JString ''level3''), (''minLevel'', JString ''level1''),
         (''defaultLevel'', JString ''level2''), (''levelOverrides'', JObject [])])"
proof -
  let ?d = "[(''maxLevel'', JString ''level3''), (''minLevel'', JString ''level1''),
         (''defaultLevel'', JString ''level2''), (''levelOverrides'', JObject [])]"
  note l = with_legacy_levels_map[where maxM = maxM and minM = minM and claude = ?d]
  have "\<exists>x. map_of (with_legacy_levels maxM minM ?d) ''maxLevel'' = Some (JString x)"
    unfolding l(1) by (simp split: option.splits)
  moreover have "\<exists>x. map_of (with_legacy_levels maxM minM ?d) ''minLevel'' = Some (JString x)"
    unfolding l(2) by (simp split: option.splits)
  moreover have "\<exists>x. map_of (with_legacy_levels maxM minM ?d) ''defaultLevel'' = Some (JString x)"
    using l(3)[of "''defaultLevel''"] by simp
  ultimately show ?thesis unfolding apply_bounds_error using level_rank_string by auto
qed

lemma no_provider_settings_no_error:
  assumes "parse t = Some (JObject p)" "distinct (map fst p)"
    "\<not> truthy_opt (map_of p ''providerSettings'')"
  shows "\<not> isl (load_from_text js parse t)"
    and "\<exists>n. load_from_text js parse t = applyLegacyModelBounds (merge_with_defaults js n)
           \<and> normalizeLoadedSettings js (JObject p) = Inr n
           \<and> merge_provider (own_entries (map_of DEFAULT_SETTINGS ''providerSettings''))
               (map_of n ''providerSettings'') ''claude''
              = [(''maxLevel'', JString ''level3''), (''minLevel'', JString ''level1''),
                 (''defaultLevel'', JString ''level2''), (''levelOverrides'', JObject [])]
           \<and> map_of (merge_with_defaults js n) ''maxModel'' =
               (case map_of p ''maxModel'' of Some v \<Rightarrow> Some (Json v)
                | None \<Rightarrow> Some (Json (JString ''opus'')))
           \<and> map_of (merge_with_defaults js n) ''minModel'' =
               (case map_of p ''minModel'' of Some v \<Rightarrow> Some (Json v)
                | None \<Rightarrow> Some (Json JNull))"
proof -
  let ?dps = "own_entries (map_of DEFAULT_SETTINGS ''providerSettings'')"
  let ?d = "[(''maxLevel'', JString ''level3''), (''minLevel'', JString ''level1''),
         (''defaultLevel'', JString ''level2''), (''levelOverrides'', JObject [])]"
  from load_object[where parse = parse and t = t and p = p and js = js, OF assms(1,2)] obtain n where
    n: "load_from_text js parse t = applyLegacyModelBounds (merge_with_defaults js n)"
       "normalizeLoadedSettings js (JObject p) = Inr n" "distinct (map fst n)"
       "\<forall>k. k \<noteq> ''defaultProvider'' \<and> k \<noteq> ''providerSettings'' \<longrightarrow>
                 map_of n k = map_option Json (map_of p k)"
       "map_of n ''providerSettings'' =
               (if truthy_opt (map_of p ''providerSettings'')
                then Some (normalizeProviderSettings js (the (map_of p ''providerSettings'')))
                else map_option Json (map_of p ''providerSettings''))" by blast
  have "map_of n ''providerSettings'' = map_option Json (map_of p ''providerSettings'')"
    using n(5) assms(3) by simp
  then have om: "optional_member (map_of n ''providerSettings'') ''claude'' = None"
    using optional_member_falsy[OF assms(3)] by simp
  have c: "''claude'' \<in> set VALID_PROVIDERS" by (simp add: VALID_PROVIDERS_def)
  have mp: "merge_provider ?dps (map_of n ''providerSettings'') ''claude'' = ?d"
    using merge_provider_default[OF c om] .
  have e: "\<not> isl (apply_bounds (map_of (merge_with_defaults js n) ''maxModel'')
           (map_of (merge_with_defaults js n) ''minModel'')
           (merge_provider ?dps (map_of n ''providerSettings'') ''claude''))"
    unfolding mp by (rule default_claude_no_error)
  show "\<not> isl (load_from_text js parse t)"
    unfolding n(1) using loaded_settings[OF n(2) refl] e by (simp split: sum.splits)
  have mx: "map_of (merge_with_defaults js n) ''maxModel'' =
               (case map_of p ''maxModel'' of Some v \<Rightarrow> Some (Json v)
                | None \<Rightarrow> Some (Json (JString ''opus'')))"
  proof -
    have nk: "map_of n ''maxModel'' = map_option Json (map_of p ''maxModel'')" using n(4) by simp
    have d: "map_of (settings_of DEFAULT_SETTINGS) ''maxModel'' = Some (Json (JString ''opus''))"
      by (simp add: map_of_settings_of DEFAULT_SETTINGS_def)
    show ?thesis using merged_top_level[OF n(3) _ _ nk, of js] unfolding d by simp
  qed
  have mn: "map_of (merge_with_defaults js n) ''minModel'' =
               (case map_of p ''minModel'' of Some v \<Rightarrow> Some (Json v)
                | None \<Rightarrow> Some (Json JNull))"
  proof -
    have nk: "map_of n ''minModel'' = map_option Json (map_of p ''minModel'')" using n(4) by simp
    have d: "map_of (settings_of DEFAULT_SETTINGS) ''minModel'' = Some (Json JNull)"
      by (simp add: map_of_settings_of DEFAULT_SETTINGS_def)
    show ?thesis using merged_top_level[OF n(3) _ _ nk, of js] unfolding d by simp
  qed
  show "\<exists>n. load_from_text js parse t = applyLegacyModelBounds (merge_with_defaults js n)
           \<and> normalizeLoadedSettings js (JObject p) = Inr n
           \<and> merge_provider ?dps (map_of n ''providerSettings'') ''claude'' = ?d
           \<and> map_of (merge_with_defaults js n) ''maxModel'' =
               (case map_of p ''maxModel'' of Some v \<Rightarrow> Some (Json v)
                | None \<Rightarrow> Some (Json (JString ''opus'')))
           \<and> map_of (merge_with_defaults js n) ''minModel'' =
               (case map_of p ''minModel'' of Some v \<Rightarrow> Some (Json v)
                | None \<Rightarrow> Some (Json JNull))"
    using n(1,2) mp mx mn by blast
qed

lemma merged_file_provider:
  assumes fl: "parse t = Some (JObject p)" "distinct (map fst p)"
      "map_of p ''providerSettings'' = Some (JObject q)"
    and canon: "\<forall>name \<in> set (map fst q). name \<in> set VALID_PROVIDERS \<and> toLowerCase js name = name"
      "distinct (map fst q)"
    and objs: "\<forall>v \<in> set (map snd q). \<exists>ob. v = JObject ob \<and> distinct (map fst ob)"
    and l: "load_from_text js parse t = Inr s"
    and pk: "provider \<in> set VALID_PROVIDERS" "key \<noteq> ''levelOverrides''"
      "provider \<noteq> ''claude'' \<or> key \<notin> set [''maxLevel'', ''minLevel'', ''defaultLevel'']"
  shows "provider_setting s provider key =
           (case map_of q provider of
              Some (JObject ob) \<Rightarrow>
                (case map_of ob key of Some v \<Rightarrow> Some v
                 | None \<Rightarrow> get_prop default_provider_settings key)
            | _ \<Rightarrow> get_prop default_provider_settings key)"
proof -
  let ?dps = "own_entries (map_of DEFAULT_SETTINGS ''providerSettings'')"
  from load_object[where parse = parse and t = t and p = p and js = js, OF fl(1,2)] obtain n where
    n: "load_from_text js parse t = applyLegacyModelBounds (merge_with_defaults js n)"
       "map_of n ''providerSettings'' =
               (if truthy_opt (map_of p ''providerSettings'')
                then Some (normalizeProviderSettings js (the (map_of p ''providerSettings'')))
                else map_option Json (map_of p ''providerSettings''))" by blast
  have ov: "map_of n ''providerSettings'' = Some (normalizeProviderSettings js (JObject q))"
    using n(2) fl(3) by simp
  have a: "applyLegacyModelBounds (merge_with_defaults js n) = Inr s" using n(1) l by simp
  from loaded_provider_setting[OF a pk(1), of key] obtain c' where
    c': "apply_bounds (map_of (merge_with_defaults js n) ''maxModel'')
           (map_of (merge_with_defaults js n) ''minModel'')
           (merge_provider ?dps (map_of n ''providerSettings'') ''claude'') = Inr c'"
    and ps: "provider_setting s provider key =
            (if provider = ''claude'' then map_of c' key
             else map_of (merge_provider ?dps (map_of n ''providerSettings'') provider) key)" by blast
  have "provider_setting s provider key
      = map_of (merge_provider ?dps (map_of n ''providerSettings'') provider) key"
  proof (cases "provider = ''claude''")
    case True
    then have "key \<noteq> ''maxLevel'' \<and> key \<noteq> ''minLevel'' \<and> key \<noteq> ''defaultLevel''"
      using pk(3) by simp
    then show ?thesis using apply_bounds_keeps[OF c', of key] ps True by simp
  next
    case False
    then show ?thesis using ps by simp
  qed
  then show ?thesis unfolding ov using merged_provider_value[OF canon objs pk(1,2)] by simp
qed

text \<open>
  A file that parses as JSON and whose values are not merged over the defaults: the
  \<open>minLevel\<close> of the claude provider is an object with an own property \<open>toString\<close>,
  its conversion to a property name throws inside the \<open>try\<close> block, and the default
  settings are returned, with the \<open>logLevel\<close> \<open>normal\<close> and not the \<open>quiet\<close> of the
  file.
\<close>

theorem parsed_file_not_merged:
  "loadSettings ascii_methods
      (\<lambda>t. Some (JObject [(''logLevel'', JString ''quiet''),
         (''providerSettings'',
            JObject [(''claude'', JObject [(''minLevel'', JObject [(''toString'', JNum 1)])])])]))
      (FileText ''{}'') = Inr (settings_of DEFAULT_SETTINGS)
   \<and> map_of (projr (loadSettings ascii_methods
      (\<lambda>t. Some (JObject [(''logLevel'', JString ''quiet''),
         (''providerSettings'',
            JObject [(''claude'', JObject [(''minLevel'', JObject [(''toString'', JNum 1)])])])]))
      (FileText ''{}''))) ''logLevel'' = Some (Json (JString ''normal''))"
  by code_simp

text \<open>
  Claim C10, amended. \<open>loadSettings\<close> never throws. When the settings file is absent,
  cannot be read, holds text that does not parse as JSON or holds \<open>null\<close>, or when
  anything else throws inside the \<open>try\<close> block (the conversion of a level of the claude
  provider to a property name can), it returns the default settings. In every case each key
  of the default settings is a key of the object returned, and each of the three providers
  has its four settings, \<open>levelOverrides\<close> being truthy. When the file parses to an object and nothing throws, every setting
  other than \<open>defaultProvider\<close> and \<open>providerSettings\<close> has the value of the file if
  the file has the key, and the default value otherwise; nothing throws when the file gives
  no provider settings. When the provider settings of the file are an object whose names
  are provider names in lower case and whose values are objects, each setting of a provider,
  other than \<open>levelOverrides\<close> and the three levels of claude that the legacy bounds
  adjust, has the value the file gives for the provider, if any, and the default value
  otherwise.
\<close>

theorem loadSettings_never_throws:
  "(\<exists>s. loadSettings js parse settingsFile = Inr s)
   \<and> (settingsFile = NoFile \<or> settingsFile = UnreadableFile
        \<or> (settingsFile = FileText t \<and> (parse t = None \<or> parse t = Some JNull
                                    \<or> isl (load_from_text js parse t)))
        \<longrightarrow> loadSettings js parse settingsFile = Inr (settings_of DEFAULT_SETTINGS))
   \<and> (loadSettings js parse settingsFile = Inr s \<longrightarrow>
        (\<forall>k \<in> set (map fst DEFAULT_SETTINGS). map_of s k \<noteq> None)
        \<and> (\<forall>p \<in> set VALID_PROVIDERS.
             \<forall>k \<in> set [''maxLevel'', ''minLevel'', ''defaultLevel'', ''levelOverrides''].
               provider_setting s p k \<noteq> None)
        \<and> (\<forall>p \<in> set VALID_PROVIDERS. truthy_opt (provider_setting s p ''levelOverrides'')))
   \<and> (settingsFile = FileText t \<and> parse t = Some (JObject p) \<and> distinct (map fst p)
        \<and> load_from_text js parse t = Inr s
        \<and> k \<noteq> ''defaultProvider'' \<and> k \<noteq> ''providerSettings''
        \<longrightarrow> loadSettings js parse settingsFile = Inr s
            \<and> map_of s k = (case map_of p k of Some v \<Rightarrow> Some (Json v)
                             | None \<Rightarrow> map_of (settings_of DEFAULT_SETTINGS) k))
   \<and> (parse t = Some (JObject p) \<and> distinct (map fst p)
        \<and> \<not> truthy_opt (map_of p ''providerSettings'')
        \<longrightarrow> \<not> isl (load_from_text js parse t))
   \<and> (settingsFile = FileText t \<and> parse t = Some (JObject p) \<and> distinct (map fst p)
        \<and> map_of p ''providerSettings'' = Some (JObject q) \<and> distinct (map fst q)
        \<and> (\<forall>name \<in> set (map fst q). name \<in> set VALID_PROVIDERS \<and> toLowerCase js name = name)
        \<and> (\<forall>v \<in> set (map snd q). \<exists>ob. v = JObject ob \<and> distinct (map fst ob))
        \<and> load_from_text js parse t = Inr s
        \<and> provider \<in> set VALID_PROVIDERS \<and> key \<noteq> ''levelOverrides''
        \<and> (provider \<noteq> ''claude'' \<or> key \<notin> set [''maxLevel'', ''minLevel'', ''defaultLevel''])
        \<longrightarrow> loadSettings js parse settingsFile = Inr s
            \<and> provider_setting s provider key =
                (case map_of q provider of
                   Some (JObject ob) \<Rightarrow>
                     (case map_of ob key of Some v \<Rightarrow> Some v
                      | None \<Rightarrow> get_prop default_provider_settings key)
                 | _ \<Rightarrow> get_prop default_provider_settings key))"
proof (intro conjI)
  show "\<exists>s. loadSettings js parse settingsFile = Inr s"
    by (cases settingsFile) (auto simp: loadSettings_def split: sum.splits)
  show "settingsFile = NoFile \<or> settingsFile = UnreadableFile
        \<or> (settingsFile = FileText t \<and> (parse t = None \<or> parse t = Some JNull
                                    \<or> isl (load_from_text js parse t)))
        \<longrightarrow> loadSettings js parse settingsFile = Inr (settings_of DEFAULT_SETTINGS)"
    by (auto simp: loadSettings_def load_from_text_def normalizeLoadedSettings_null
        split: sum.splits)
  show "loadSettings js parse settingsFile = Inr s \<longrightarrow>
        (\<forall>k \<in> set (map fst DEFAULT_SETTINGS). map_of s k \<noteq> None)
        \<and> (\<forall>p \<in> set VALID_PROVIDERS.
             \<forall>k \<in> set [''maxLevel'', ''minLevel'', ''defaultLevel'', ''levelOverrides''].
               provider_setting s p k \<noteq> None)
        \<and> (\<forall>p \<in> set VALID_PROVIDERS. truthy_opt (provider_setting s p ''levelOverrides''))"
  proof
    assume "loadSettings js parse settingsFile = Inr s"
    from loadSettings_cases[OF this] show "(\<forall>k \<in> set (map fst DEFAULT_SETTINGS). map_of s k \<noteq> None)
        \<and> (\<forall>p \<in> set VALID_PROVIDERS.
             \<forall>k \<in> set [''maxLevel'', ''minLevel'', ''defaultLevel'', ''levelOverrides''].
               provider_setting s p k \<noteq> None)
        \<and> (\<forall>p \<in> set VALID_PROVIDERS. truthy_opt (provider_setting s p ''levelOverrides''))"
    proof
      assume "s = settings_of DEFAULT_SETTINGS"
      then show ?thesis using default_settings_keys default_provider_keys default_levelOverrides
        by blast
    next
      assume "\<exists>n. applyLegacyModelBounds (merge_with_defaults js n) = Inr s"
      then show ?thesis using loaded_keys by blast
    qed
  qed
  show "settingsFile = FileText t \<and> parse t = Some (JObject p) \<and> distinct (map fst p)
        \<and> load_from_text js parse t = Inr s
        \<and> k \<noteq> ''defaultProvider'' \<and> k \<noteq> ''providerSettings''
        \<longrightarrow> loadSettings js parse settingsFile = Inr s
            \<and> map_of s k = (case map_of p k of Some v \<Rightarrow> Some (Json v)
                             | None \<Rightarrow> map_of (settings_of DEFAULT_SETTINGS) k)"
  proof
    assume a: "settingsFile = FileText t \<and> parse t = Some (JObject p) \<and> distinct (map fst p)
        \<and> load_from_text js parse t = Inr s
        \<and> k \<noteq> ''defaultProvider'' \<and> k \<noteq> ''providerSettings''"
    then have f: "parse t = Some (JObject p)" "distinct (map fst p)" by blast+
    from load_object[where parse = parse and t = t and p = p and js = js, OF f] obtain n where
      n: "load_from_text js parse t = applyLegacyModelBounds (merge_with_defaults js n)"
         "distinct (map fst n)"
         "\<forall>k. k \<noteq> ''defaultProvider'' \<and> k \<noteq> ''providerSettings'' \<longrightarrow>
                 map_of n k = map_option Json (map_of p k)" by blast
    have l: "applyLegacyModelBounds (merge_with_defaults js n) = Inr s" using n(1) a by simp
    have k: "k \<noteq> ''defaultProvider''" "k \<noteq> ''providerSettings''" using a by blast+
    have "map_of s k = map_of (merge_with_defaults js n) k" using loaded_top_level[OF l k(2)] .
    also have "\<dots> = (case map_of p k of Some v \<Rightarrow> Some (Json v)
                             | None \<Rightarrow> map_of (settings_of DEFAULT_SETTINGS) k)"
      using merged_top_level[OF n(2) k] n(3) k by blast
    finally have "map_of s k = (case map_of p k of Some v \<Rightarrow> Some (Json v)
                             | None \<Rightarrow> map_of (settings_of DEFAULT_SETTINGS) k)" .
    moreover have "loadSettings js parse settingsFile = Inr s" using a by (simp add: loadSettings_def)
    ultimately show "loadSettings js parse settingsFile = Inr s
            \<and> map_of s k = (case map_of p k of Some v \<Rightarrow> Some (Json v)
                             | None \<Rightarrow> map_of (settings_of DEFAULT_SETTINGS) k)" by blast
  qed
  show "parse t = Some (JObject p) \<and> distinct (map fst p)
        \<and> \<not> truthy_opt (map_of p ''providerSettings'')
        \<longrightarrow> \<not> isl (load_from_text js parse t)"
    using no_provider_settings_no_error(1) by blast
  show "settingsFile = FileText t \<and> parse t = Some (JObject p) \<and> distinct (map fst p)
        \<and> map_of p ''providerSettings'' = Some (JObject q) \<and> distinct (map fst q)
        \<and> (\<forall>name \<in> set (map fst q). name \<in> set VALID_PROVIDERS \<and> toLowerCase js name = name)
        \<and> (\<forall>v \<in> set (map snd q). \<exists>ob. v = JObject ob \<and> distinct (map fst ob))
        \<and> load_from_text js parse t = Inr s
        \<and> provider \<in> set VALID_PROVIDERS \<and> key \<noteq> ''levelOverrides''
        \<and> (provider \<noteq> ''claude'' \<or> key \<notin> set [''maxLevel'', ''minLevel'', ''defaultLevel''])
        \<longrightarrow> loadSettings js parse settingsFile = Inr s
            \<and> provider_setting s provider key =
                (case map_of q provider of
                   Some (JObject ob) \<Rightarrow>
                     (case map_of ob key of Some v \<Rightarrow> Some v
                      | None \<Rightarrow> get_prop default_provider_settings key)
                 | _ \<Rightarrow> get_prop default_provider_settings key)"
  proof
    assume a: "settingsFile = FileText t \<and> parse t = Some (JObject p) \<and> distinct (map fst p)
        \<and> map_of p ''providerSettings'' = Some (JObject q) \<and> distinct (map fst q)
        \<and> (\<forall>name \<in> set (map fst q). name \<in> set VALID_PROVIDERS \<and> toLowerCase js name = name)
        \<and> (\<forall>v \<in> set (map snd q). \<exists>ob. v = JObject ob \<and> distinct (map fst ob))
        \<and> load_from_text js parse t = Inr s
        \<and> provider \<in> set VALID_PROVIDERS \<and> key \<noteq> ''levelOverrides''
        \<and> (provider \<noteq> ''claude'' \<or> key \<notin> set [''maxLevel'', ''minLevel'', ''defaultLevel''])"
    have 1: "loadSettings js parse settingsFile = Inr s" using a by (simp add: loadSettings_def)
    have 2: "provider_setting s provider key =
                (case map_of q provider of
                   Some (JObject ob) \<Rightarrow>
                     (case map_of ob key of Some v \<Rightarrow> Some v
                      | None \<Rightarrow> get_prop default_provider_settings key)
                 | _ \<Rightarrow> get_prop default_provider_settings key)"
      by (rule merged_file_provider[of parse t p q js s provider key]) (use a in blast)+
    show "loadSettings js parse settingsFile = Inr s
            \<and> provider_setting s provider key =
                (case map_of q provider of
                   Some (JObject ob) \<Rightarrow>
                     (case map_of ob key of Some v \<Rightarrow> Some v
                      | None \<Rightarrow> get_prop default_provider_settings key)
                 | _ \<Rightarrow> get_prop default_provider_settings key)"
      using 1 2 by (rule conjI)
  qed
qed

lemma legacy_level_table:
  "(case mapLegacyModelToLevel m of Some l \<Rightarrow> l | None \<Rightarrow> b)
     = (case m of
          Some (Json (JString name)) \<Rightarrow>
            (case map_of [(''haiku'', ''level1''), (''sonnet'', ''level2''), (''opus'', ''level3'')] name of
               Some l \<Rightarrow> l | None \<Rightarrow> b)
        | _ \<Rightarrow> b)"
  unfolding mapLegacy_table by (simp split: option.splits jsvalue.splits json.splits)

lemma legacy_level_file:
  "(case mapLegacyModelToLevel (case mo of Some v \<Rightarrow> Some (Json v) | None \<Rightarrow> Some (Json dflt)) of
      Some l \<Rightarrow> l | None \<Rightarrow> b)
     = (case (case mo of Some v \<Rightarrow> v | None \<Rightarrow> dflt) of
          JString name \<Rightarrow>
            (case map_of [(''haiku'', ''level1''), (''sonnet'', ''level2''), (''opus'', ''level3'')] name of
               Some l \<Rightarrow> l | None \<Rightarrow> b)
        | _ \<Rightarrow> b)"
  unfolding mapLegacy_table by (simp split: option.splits jsvalue.splits json.splits)

lemma bounded_settings:
  assumes ps: "map_of settings ''providerSettings'' = Some (Json (JObject ps))"
      "map_of ps ''claude'' = Some (JObject c)"
    and c: "map_of c ''minLevel'' = Some (JString cmin)"
      "map_of c ''maxLevel'' = Some (JString cmax)"
      "map_of c ''defaultLevel'' = Some (JString d)"
    and valid: "cmin \<in> set VALID_LEVELS" "cmax \<in> set VALID_LEVELS" "d \<in> set VALID_LEVELS"
    and hi: "hi = (case mapLegacyModelToLevel (map_of settings ''maxModel'') of Some l \<Rightarrow> l | None \<Rightarrow> cmax)"
    and lo: "lo = (case mapLegacyModelToLevel (map_of settings ''minModel'') of Some l \<Rightarrow> l | None \<Rightarrow> cmin)"
  shows "\<exists>s. applyLegacyModelBounds settings = Inr s
          \<and> (if level_number lo > level_number hi
              then provider_setting s ''claude'' ''minLevel'' = Some (JString ''level1'')
                 \<and> provider_setting s ''claude'' ''maxLevel'' = Some (JString ''level3'')
                 \<and> provider_setting s ''claude'' ''defaultLevel'' = Some (JString d)
              else provider_setting s ''claude'' ''minLevel'' = Some (JString lo)
                 \<and> provider_setting s ''claude'' ''maxLevel'' = Some (JString hi)
                 \<and> provider_setting s ''claude'' ''defaultLevel'' =
                     Some (JString (if level_number d < level_number lo then lo
                                    else if level_number d > level_number hi then hi else d)))"
proof -
  from apply_bounds_valid[OF c valid hi lo] obtain c' where
    c': "apply_bounds (map_of settings ''maxModel'') (map_of settings ''minModel'') c = Inr c'"
    and lv: "if level_number lo > level_number hi
              then map_of c' ''minLevel'' = Some (JString ''level1'')
                 \<and> map_of c' ''maxLevel'' = Some (JString ''level3'')
                 \<and> map_of c' ''defaultLevel'' = Some (JString d)
              else map_of c' ''minLevel'' = Some (JString lo)
                 \<and> map_of c' ''maxLevel'' = Some (JString hi)
                 \<and> map_of c' ''defaultLevel'' =
                     Some (JString (if level_number d < level_number lo then lo
                                    else if level_number d > level_number hi then hi else d))"
    by blast
  let ?s = "assign settings ''providerSettings'' (Json (JObject (assign ps ''claude'' (JObject c'))))"
  have r: "applyLegacyModelBounds settings = Inr ?s"
    using applyLegacyModelBounds_result[OF ps] c' by simp
  have g: "provider_setting ?s ''claude'' k = map_of c' k" for k
    by (simp add: provider_setting_assigned)
  show ?thesis using r lv unfolding g[symmetric] by blast
qed

lemma loaded_legacy_file:
  assumes f: "parse t = Some (JObject p)" "distinct (map fst p)"
      "\<not> truthy_opt (map_of p ''providerSettings'')"
    and hi: "hi = (case (case map_of p ''maxModel'' of Some v \<Rightarrow> v | None \<Rightarrow> JString ''opus'') of
                JString name \<Rightarrow>
                  (case map_of [(''haiku'', ''level1''), (''sonnet'', ''level2''), (''opus'', ''level3'')] name of
                     Some l \<Rightarrow> l | None \<Rightarrow> ''level3'')
              | _ \<Rightarrow> ''level3'')"
    and lo: "lo = (case (case map_of p ''minModel'' of Some v \<Rightarrow> v | None \<Rightarrow> JNull) of
                JString name \<Rightarrow>
                  (case map_of [(''haiku'', ''level1''), (''sonnet'', ''level2''), (''opus'', ''level3'')] name of
                     Some l \<Rightarrow> l | None \<Rightarrow> ''level1'')
              | _ \<Rightarrow> ''level1'')"
  shows "\<exists>s. load_from_text js parse t = Inr s
          \<and> (if level_number lo > level_number hi
              then provider_setting s ''claude'' ''minLevel'' = Some (JString ''level1'')
                 \<and> provider_setting s ''claude'' ''maxLevel'' = Some (JString ''level3'')
                 \<and> provider_setting s ''claude'' ''defaultLevel'' = Some (JString ''level2'')
              else provider_setting s ''claude'' ''minLevel'' = Some (JString lo)
                 \<and> provider_setting s ''claude'' ''maxLevel'' = Some (JString hi)
                 \<and> provider_setting s ''claude'' ''defaultLevel'' =
                     Some (JString (if level_number ''level2'' < level_number lo then lo
                                    else if level_number ''level2'' > level_number hi then hi
                                    else ''level2'')))"
proof -
  let ?dps = "own_entries (map_of DEFAULT_SETTINGS ''providerSettings'')"
  let ?d = "[(''maxLevel'', JString ''level3''), (''minLevel'', JString ''level1''),
         (''defaultLevel'', JString ''level2''), (''levelOverrides'', JObject [])]"
  from no_provider_settings_no_error(2)[where parse = parse and t = t and p = p and js = js, OF f]
  obtain n where
    n: "load_from_text js parse t = applyLegacyModelBounds (merge_with_defaults js n)"
       "merge_provider ?dps (map_of n ''providerSettings'') ''claude'' = ?d"
       "map_of (merge_with_defaults js n) ''maxModel'' =
               (case map_of p ''maxModel'' of Some v \<Rightarrow> Some (Json v)
                | None \<Rightarrow> Some (Json (JString ''opus'')))"
       "map_of (merge_with_defaults js n) ''minModel'' =
               (case map_of p ''minModel'' of Some v \<Rightarrow> Some (Json v)
                | None \<Rightarrow> Some (Json JNull))" by blast
  have cl: "''claude'' \<in> set VALID_PROVIDERS" by (simp add: VALID_PROVIDERS_def)
  have ps: "map_of (merge_with_defaults js n) ''providerSettings''
      = Some (Json (JObject (mergeProviderSettings ?dps (map_of n ''providerSettings''))))"
    by (rule merge_with_defaults_providerSettings)
  have pc: "map_of (mergeProviderSettings ?dps (map_of n ''providerSettings'')) ''claude''
      = Some (JObject ?d)"
    using mergeProviderSettings_provider[OF cl] n(2) by simp
  have c: "map_of ?d ''minLevel'' = Some (JString ''level1'')"
      "map_of ?d ''maxLevel'' = Some (JString ''level3'')"
      "map_of ?d ''defaultLevel'' = Some (JString ''level2'')" by simp_all
  have v: "''level1'' \<in> set VALID_LEVELS" "''level3'' \<in> set VALID_LEVELS"
      "''level2'' \<in> set VALID_LEVELS" by (simp_all add: VALID_LEVELS_def)
  have hi': "hi = (case mapLegacyModelToLevel (map_of (merge_with_defaults js n) ''maxModel'') of
                     Some l \<Rightarrow> l | None \<Rightarrow> ''level3'')"
    unfolding n(3) legacy_level_file hi by (rule refl)
  have lo': "lo = (case mapLegacyModelToLevel (map_of (merge_with_defaults js n) ''minModel'') of
                     Some l \<Rightarrow> l | None \<Rightarrow> ''level1'')"
    unfolding n(4) legacy_level_file lo by (rule refl)
  show ?thesis unfolding n(1) by (rule bounded_settings[OF ps pc c v hi' lo'])
qed

text \<open>
  Claim C6. \<open>applyLegacyModelBounds\<close> sets the \<open>maxLevel\<close> of the claude provider to
  level1, level2 or level3 when \<open>maxModel\<close> is haiku, sonnet or opus, and the \<open>minLevel\<close>
  likewise from \<open>minModel\<close>; a bound without a legacy name keeps the level it has. When
  the levels are level names, the bounds are then reset to level1 and level3 exactly when
  the floor ranks above the ceiling, \<open>defaultLevel\<close> staying as it is; otherwise the bounds
  stay and \<open>defaultLevel\<close> becomes the floor if it ranks below it, the ceiling if it
  ranks above it, and is unchanged between them. \<open>loadSettings\<close> returns the settings so
  bounded; for a settingsFile that parses to an object without provider settings the levels start
  from the defaults level1, level3 and level2, with \<open>maxModel\<close> \<open>opus\<close> and \<open>minModel\<close>
  \<open>null\<close> where the settingsFile gives none.
\<close>

theorem loadSettings_legacy_bounds:
  "(map_of settings ''providerSettings'' = Some (Json (JObject ps))
      \<and> map_of ps ''claude'' = Some (JObject c)
      \<and> map_of c ''minLevel'' = Some (JString cmin)
      \<and> map_of c ''maxLevel'' = Some (JString cmax)
      \<and> map_of c ''defaultLevel'' = Some (JString d)
      \<and> cmin \<in> set VALID_LEVELS \<and> cmax \<in> set VALID_LEVELS \<and> d \<in> set VALID_LEVELS
      \<and> hi = (case map_of settings ''maxModel'' of
                 Some (Json (JString name)) \<Rightarrow>
                   (case map_of [(''haiku'', ''level1''), (''sonnet'', ''level2''), (''opus'', ''level3'')] name of
                      Some l \<Rightarrow> l | None \<Rightarrow> cmax)
               | _ \<Rightarrow> cmax)
      \<and> lo = (case map_of settings ''minModel'' of
                 Some (Json (JString name)) \<Rightarrow>
                   (case map_of [(''haiku'', ''level1''), (''sonnet'', ''level2''), (''opus'', ''level3'')] name of
                      Some l \<Rightarrow> l | None \<Rightarrow> cmin)
               | _ \<Rightarrow> cmin)
      \<longrightarrow> (\<exists>s. applyLegacyModelBounds settings = Inr s
            \<and> (if level_number lo > level_number hi
                then provider_setting s ''claude'' ''minLevel'' = Some (JString ''level1'')
                   \<and> provider_setting s ''claude'' ''maxLevel'' = Some (JString ''level3'')
                   \<and> provider_setting s ''claude'' ''defaultLevel'' = Some (JString d)
                else provider_setting s ''claude'' ''minLevel'' = Some (JString lo)
                   \<and> provider_setting s ''claude'' ''maxLevel'' = Some (JString hi)
                   \<and> provider_setting s ''claude'' ''defaultLevel'' =
                       Some (JString (if level_number d < level_number lo then lo
                                      else if level_number d > level_number hi then hi else d)))))
   \<and> (settingsFile = FileText t \<and> parse t = Some v \<and> normalizeLoadedSettings js v = Inr n
        \<and> applyLegacyModelBounds (merge_with_defaults js n) = Inr s'
        \<longrightarrow> loadSettings js parse settingsFile = Inr s')
   \<and> (settingsFile = FileText t \<and> parse t = Some (JObject p) \<and> distinct (map fst p)
        \<and> \<not> truthy_opt (map_of p ''providerSettings'')
        \<and> fhi = (case (case map_of p ''maxModel'' of Some v \<Rightarrow> v | None \<Rightarrow> JString ''opus'') of
                JString name \<Rightarrow>
                  (case map_of [(''haiku'', ''level1''), (''sonnet'', ''level2''), (''opus'', ''level3'')] name of
                     Some l \<Rightarrow> l | None \<Rightarrow> ''level3'')
              | _ \<Rightarrow> ''level3'')
        \<and> flo = (case (case map_of p ''minModel'' of Some v \<Rightarrow> v | None \<Rightarrow> JNull) of
                JString name \<Rightarrow>
                  (case map_of [(''haiku'', ''level1''), (''sonnet'', ''level2''), (''opus'', ''level3'')] name of
                     Some l \<Rightarrow> l | None \<Rightarrow> ''level1'')
              | _ \<Rightarrow> ''level1'')
        \<longrightarrow> (\<exists>s. loadSettings js parse settingsFile = Inr s
            \<and> (if level_number flo > level_number fhi
                then provider_setting s ''claude'' ''minLevel'' = Some (JString ''level1'')
                   \<and> provider_setting s ''claude'' ''maxLevel'' = Some (JString ''level3'')
                   \<and> provider_setting s ''claude'' ''defaultLevel'' = Some (JString ''level2'')
                else provider_setting s ''claude'' ''minLevel'' = Some (JString flo)
                   \<and> provider_setting s ''claude'' ''maxLevel'' = Some (JString fhi)
                   \<and> provider_setting s ''claude'' ''defaultLevel'' =
                       Some (JString (if level_number ''level2'' < level_number flo then flo
                                      else if level_number ''level2'' > level_number fhi then fhi
                                      else ''level2'')))))
   \<and> map level_number [''level1'', ''level2'', ''level3''] = [1, 2, 3]"
proof (intro conjI impI)
  assume a: "map_of settings ''providerSettings'' = Some (Json (JObject ps))
      \<and> map_of ps ''claude'' = Some (JObject c)
      \<and> map_of c ''minLevel'' = Some (JString cmin)
      \<and> map_of c ''maxLevel'' = Some (JString cmax)
      \<and> map_of c ''defaultLevel'' = Some (JString d)
      \<and> cmin \<in> set VALID_LEVELS \<and> cmax \<in> set VALID_LEVELS \<and> d \<in> set VALID_LEVELS
      \<and> hi = (case map_of settings ''maxModel'' of
                 Some (Json (JString name)) \<Rightarrow>
                   (case map_of [(''haiku'', ''level1''), (''sonnet'', ''level2''), (''opus'', ''level3'')] name of
                      Some l \<Rightarrow> l | None \<Rightarrow> cmax)
               | _ \<Rightarrow> cmax)
      \<and> lo = (case map_of settings ''minModel'' of
                 Some (Json (JString name)) \<Rightarrow>
                   (case map_of [(''haiku'', ''level1''), (''sonnet'', ''level2''), (''opus'', ''level3'')] name of
                      Some l \<Rightarrow> l | None \<Rightarrow> cmin)
               | _ \<Rightarrow> cmin)"
  have hi: "hi = (case mapLegacyModelToLevel (map_of settings ''maxModel'') of Some l \<Rightarrow> l | None \<Rightarrow> cmax)"
    unfolding legacy_level_table using a by blast
  have lo: "lo = (case mapLegacyModelToLevel (map_of settings ''minModel'') of Some l \<Rightarrow> l | None \<Rightarrow> cmin)"
    unfolding legacy_level_table using a by blast
  show "\<exists>s. applyLegacyModelBounds settings = Inr s
            \<and> (if level_number lo > level_number hi
                then provider_setting s ''claude'' ''minLevel'' = Some (JString ''level1'')
                   \<and> provider_setting s ''claude'' ''maxLevel'' = Some (JString ''level3'')
                   \<and> provider_setting s ''claude'' ''defaultLevel'' = Some (JString d)
                else provider_setting s ''claude'' ''minLevel'' = Some (JString lo)
                   \<and> provider_setting s ''claude'' ''maxLevel'' = Some (JString hi)
                   \<and> provider_setting s ''claude'' ''defaultLevel'' =
                       Some (JString (if level_number d < level_number lo then lo
                                      else if level_number d > level_number hi then hi else d)))"
    by (rule bounded_settings[where cmin = cmin and cmax = cmax and ps = ps and c = c, OF _ _ _ _ _ _ _ _ hi lo])
       (use a in blast)+
next
  assume "settingsFile = FileText t \<and> parse t = Some v \<and> normalizeLoadedSettings js v = Inr n
        \<and> applyLegacyModelBounds (merge_with_defaults js n) = Inr s'"
  then show "loadSettings js parse settingsFile = Inr s'"
    by (simp add: loadSettings_def load_from_text_def)
next
  assume a: "settingsFile = FileText t \<and> parse t = Some (JObject p) \<and> distinct (map fst p)
        \<and> \<not> truthy_opt (map_of p ''providerSettings'')
        \<and> fhi = (case (case map_of p ''maxModel'' of Some v \<Rightarrow> v | None \<Rightarrow> JString ''opus'') of
                JString name \<Rightarrow>
                  (case map_of [(''haiku'', ''level1''), (''sonnet'', ''level2''), (''opus'', ''level3'')] name of
                     Some l \<Rightarrow> l | None \<Rightarrow> ''level3'')
              | _ \<Rightarrow> ''level3'')
        \<and> flo = (case (case map_of p ''minModel'' of Some v \<Rightarrow> v | None \<Rightarrow> JNull) of
                JString name \<Rightarrow>
                  (case map_of [(''haiku'', ''level1''), (''sonnet'', ''level2''), (''opus'', ''level3'')] name of
                     Some l \<Rightarrow> l | None \<Rightarrow> ''level1'')
              | _ \<Rightarrow> ''level1'')"
  have "\<exists>s. load_from_text js parse t = Inr s
          \<and> (if level_number flo > level_number fhi
              then provider_setting s ''claude'' ''minLevel'' = Some (JString ''level1'')
                 \<and> provider_setting s ''claude'' ''maxLevel'' = Some (JString ''level3'')
                 \<and> provider_setting s ''claude'' ''defaultLevel'' = Some (JString ''level2'')
              else provider_setting s ''claude'' ''minLevel'' = Some (JString flo)
                 \<and> provider_setting s ''claude'' ''maxLevel'' = Some (JString fhi)
                 \<and> provider_setting s ''claude'' ''defaultLevel'' =
                     Some (JString (if level_number ''level2'' < level_number flo then flo
                                    else if level_number ''level2'' > level_number fhi then fhi
                                    else ''level2'')))"
    by (rule loaded_legacy_file[where p = p]) (use a in blast)+
  then obtain s where s: "load_from_text js parse t = Inr s"
    and lv: "if level_number flo > level_number fhi
              then provider_setting s ''claude'' ''minLevel'' = Some (JString ''level1'')
                 \<and> provider_setting s ''claude'' ''maxLevel'' = Some (JString ''level3'')
                 \<and> provider_setting s ''claude'' ''defaultLevel'' = Some (JString ''level2'')
              else provider_setting s ''claude'' ''minLevel'' = Some (JString flo)
                 \<and> provider_setting s ''claude'' ''maxLevel'' = Some (JString fhi)
                 \<and> provider_setting s ''claude'' ''defaultLevel'' =
                     Some (JString (if level_number ''level2'' < level_number flo then flo
                                    else if level_number ''level2'' > level_number fhi then fhi
                                    else ''level2''))" by blast
  have "loadSettings js parse settingsFile = Inr s" using a s by (simp add: loadSettings_def)
  then show "\<exists>s. loadSettings js parse settingsFile = Inr s
            \<and> (if level_number flo > level_number fhi
                then provider_setting s ''claude'' ''minLevel'' = Some (JString ''level1'')
                   \<and> provider_setting s ''claude'' ''maxLevel'' = Some (JString ''level3'')
                   \<and> provider_setting s ''claude'' ''defaultLevel'' = Some (JString ''level2'')
                else provider_setting s ''claude'' ''minLevel'' = Some (JString flo)
                   \<and> provider_setting s ''claude'' ''maxLevel'' = Some (JString fhi)
                   \<and> provider_setting s ''claude'' ''defaultLevel'' =
                       Some (JString (if level_number ''level2'' < level_number flo then flo
                                      else if level_number ''level2'' > level_number fhi then fhi
                                      else ''level2'')))"
    using lv by blast
next
  show "map level_number [''level1'', ''level2'', ''level3''] = [1, 2, 3]"
    by (simp add: level_number_simps)
qed

theorem loadSettings_legacy_bounds_witness:
  "provider_setting
      (projr (loadSettings ascii_methods (\<lambda>t. Some (JObject [(''maxModel'', JString ''haiku'')]))
                (FileText ''{}'')))
      ''claude'' ''maxLevel'' = Some (JString ''level1'')
   \<and> provider_setting
      (projr (loadSettings ascii_methods (\<lambda>t. Some (JObject [(''maxModel'', JString ''haiku'')]))
                (FileText ''{}'')))
      ''claude'' ''minLevel'' = Some (JString ''level1'')
   \<and> provider_setting
      (projr (loadSettings ascii_methods (\<lambda>t. Some (JObject [(''maxModel'', JString ''haiku'')]))
                (FileText ''{}'')))
      ''claude'' ''defaultLevel'' = Some (JString ''level1'')"
proof -
  let ?p = "[(''maxModel'', JString ''haiku'')]"
  let ?parse = "\<lambda>t::string. Some (JObject ?p)"
  note B = loadSettings_legacy_bounds[where js = ascii_methods and parse = ?parse
      and settingsFile = "FileText ''{}''" and t = "''{}''" and p = ?p
      and fhi = "''level1''" and flo = "''level1''",
      THEN conjunct2, THEN conjunct2, THEN conjunct1, rule_format]
  have "\<exists>s. loadSettings ascii_methods ?parse (FileText ''{}'') = Inr s
            \<and> (if level_number ''level1'' > level_number ''level1''
                then provider_setting s ''claude'' ''minLevel'' = Some (JString ''level1'')
                   \<and> provider_setting s ''claude'' ''maxLevel'' = Some (JString ''level3'')
                   \<and> provider_setting s ''claude'' ''defaultLevel'' = Some (JString ''level2'')
                else provider_setting s ''claude'' ''minLevel'' = Some (JString ''level1'')
                   \<and> provider_setting s ''claude'' ''maxLevel'' = Some (JString ''level1'')
                   \<and> provider_setting s ''claude'' ''defaultLevel'' =
                       Some (JString (if level_number ''level2'' < level_number ''level1'' then ''level1''
                                      else if level_number ''level2'' > level_number ''level1'' then ''level1''
                                      else ''level2'')))"
    by (rule B) simp
  then obtain s where s: "loadSettings ascii_methods ?parse (FileText ''{}'') = Inr s"
    and lv: "provider_setting s ''claude'' ''minLevel'' = Some (JString ''level1'')
                   \<and> provider_setting s ''claude'' ''maxLevel'' = Some (JString ''level1'')
                   \<and> provider_setting s ''claude'' ''defaultLevel'' = Some (JString ''level1'')"
    by (auto simp: level_number_simps)
  show ?thesis unfolding s using lv by simp
qed

theorem loadSettings_never_throws_witness:
  "loadSettings ascii_methods (\<lambda>t. None) (FileText ''{broken'') = Inr (settings_of DEFAULT_SETTINGS)
   \<and> loadSettings ascii_methods
        (\<lambda>t. Some (JObject [(''logLevel'', JString ''quiet''),
           (''providerSettings'',
              JObject [(''claude'', JObject [(''minLevel'', JObject [(''toString'', JNum 1)])])])]))
        (FileText ''{}'') = Inr (settings_of DEFAULT_SETTINGS)
   \<and> map_of (projr (loadSettings ascii_methods (\<lambda>t. Some (JObject [(''logLevel'', JString ''quiet'')]))
                (FileText ''{}''))) ''logLevel'' = Some (Json (JString ''quiet''))
   \<and> map_of (projr (loadSettings ascii_methods (\<lambda>t. Some (JObject [(''logLevel'', JString ''quiet'')]))
                (FileText ''{}''))) ''claudeCommand'' = Some (Json (JString ''claude''))
   \<and> provider_setting
        (projr (loadSettings ascii_methods
           (\<lambda>t. Some (JObject [(''providerSettings'',
                   JObject [(''codex'', JObject [(''defaultLevel'', JString ''level3'')])])]))
           (FileText ''{}''))) ''codex'' ''defaultLevel'' = Some (JString ''level3'')
   \<and> provider_setting
        (projr (loadSettings ascii_methods
           (\<lambda>t. Some (JObject [(''providerSettings'',
                   JObject [(''codex'', JObject [(''defaultLevel'', JString ''level3'')])])]))
           (FileText ''{}''))) ''codex'' ''maxLevel'' = Some (JString ''level3'')"
proof -
  let ?bad = "[(''logLevel'', JString ''quiet''),
           (''providerSettings'',
              JObject [(''claude'', JObject [(''minLevel'', JObject [(''toString'', JNum 1)])])])]"
  let ?quiet = "[(''logLevel'', JString ''quiet'')]"
  let ?q = "[(''codex'', JObject [(''defaultLevel'', JString ''level3'')])]"
  let ?codex = "[(''providerSettings'', JObject ?q)]"
  let ?settingsFile = "FileText ''{}''"
  have 1: "loadSettings ascii_methods (\<lambda>t. None) (FileText ''{broken'') = Inr (settings_of DEFAULT_SETTINGS)"
    using loadSettings_never_throws[where js = ascii_methods and parse = "\<lambda>t. None"
        and settingsFile = "FileText ''{broken''" and t = "''{broken''", THEN conjunct2, THEN conjunct1]
    by simp
  have e: "isl (load_from_text ascii_methods (\<lambda>t. Some (JObject ?bad)) ''{}'')" by code_simp
  have 2: "loadSettings ascii_methods (\<lambda>t. Some (JObject ?bad)) ?settingsFile = Inr (settings_of DEFAULT_SETTINGS)"
    using loadSettings_never_throws[where js = ascii_methods and parse = "\<lambda>t. Some (JObject ?bad)"
        and settingsFile = ?settingsFile and t = "''{}''", THEN conjunct2, THEN conjunct1] e
    by simp
  let ?pq = "\<lambda>t::string. Some (JObject ?quiet)"
  have "\<not> isl (load_from_text ascii_methods ?pq ''{}'')"
    using loadSettings_never_throws[where js = ascii_methods and parse = ?pq
        and t = "''{}''" and p = ?quiet,
        THEN conjunct2, THEN conjunct2, THEN conjunct2, THEN conjunct2, THEN conjunct1]
    by simp
  then obtain sq where sq: "load_from_text ascii_methods ?pq ''{}'' = Inr sq"
    by (cases "load_from_text ascii_methods ?pq ''{}''") simp_all
  note T = loadSettings_never_throws[where js = ascii_methods and parse = ?pq
        and settingsFile = ?settingsFile and t = "''{}''" and p = ?quiet and s = sq,
        THEN conjunct2, THEN conjunct2, THEN conjunct2, THEN conjunct1, rule_format]
  have 3: "loadSettings ascii_methods ?pq ?settingsFile = Inr sq
         \<and> map_of sq ''logLevel'' = Some (Json (JString ''quiet''))"
    using T[where k = "''logLevel''"] sq by simp
  have 4: "loadSettings ascii_methods ?pq ?settingsFile = Inr sq
         \<and> map_of sq ''claudeCommand'' = Some (Json (JString ''claude''))"
    using T[where k = "''claudeCommand''"] sq
    by (simp add: map_of_settings_of DEFAULT_SETTINGS_def)
  let ?pc = "\<lambda>t::string. Some (JObject ?codex)"
  have "\<not> isl (load_from_text ascii_methods ?pc ''{}'')" by code_simp
  then obtain sc where sc: "load_from_text ascii_methods ?pc ''{}'' = Inr sc"
    by (cases "load_from_text ascii_methods ?pc ''{}''") simp_all
  note M = loadSettings_never_throws[where js = ascii_methods and parse = ?pc
        and settingsFile = ?settingsFile and t = "''{}''" and p = ?codex and q = ?q and s = sc
        and provider = "''codex''",
        THEN conjunct2, THEN conjunct2, THEN conjunct2, THEN conjunct2, THEN conjunct2, rule_format]
  have lower: "toLowerCase ascii_methods ''codex'' = ''codex''" by code_simp
  have h: "?settingsFile = ?settingsFile \<and> ?pc ''{}'' = Some (JObject ?codex) \<and> distinct (map fst ?codex)
        \<and> map_of ?codex ''providerSettings'' = Some (JObject ?q) \<and> distinct (map fst ?q)
        \<and> (\<forall>name \<in> set (map fst ?q). name \<in> set VALID_PROVIDERS \<and> toLowerCase ascii_methods name = name)
        \<and> (\<forall>v \<in> set (map snd ?q). \<exists>ob. v = JObject ob \<and> distinct (map fst ob))
        \<and> load_from_text ascii_methods ?pc ''{}'' = Inr sc
        \<and> ''codex'' \<in> set VALID_PROVIDERS"
    using sc lower by (simp add: VALID_PROVIDERS_def)
  have 5: "loadSettings ascii_methods ?pc ?settingsFile = Inr sc
         \<and> provider_setting sc ''codex'' ''defaultLevel'' = Some (JString ''level3'')"
    using M[where key = "''defaultLevel''"] h by simp
  have 6: "loadSettings ascii_methods ?pc ?settingsFile = Inr sc
         \<and> provider_setting sc ''codex'' ''maxLevel'' = Some (JString ''level3'')"
    using M[where key = "''maxLevel''"] h by (simp add: default_provider_settings_def)
  show ?thesis using 1 2 3 4 5 6 by simp
qed

section \<open>Examples of loading the settings\<close>

text \<open>
  Names that are not canonical are handled first: with the provider settings
  \<open>{claude: {defaultLevel: 'level1'}, Anthropic: {defaultLevel: 'level3', minLevel: 'level2'}}\<close>
  the entry \<open>Anthropic\<close> is merged into \<open>claude\<close> before the entry \<open>claude\<close>, whose
  \<open>defaultLevel\<close> wins; the default then is raised to the floor \<open>level2\<close>.
\<close>

lemma loadSettings_alias_example:
  "provider_setting
     (projr (loadSettings ascii_methods
        (\<lambda>t. Some (JObject [(''providerSettings'',
           JObject [(''claude'', JObject [(''defaultLevel'', JString ''level1'')]),
                    (''Anthropic'', JObject [(''defaultLevel'', JString ''level3''),
                                              (''minLevel'', JString ''level2'')])])]))
        (FileText ''{}''))) ''claude'' ''minLevel'' = Some (JString ''level2'')
   \<and> provider_setting
     (projr (loadSettings ascii_methods
        (\<lambda>t. Some (JObject [(''providerSettings'',
           JObject [(''claude'', JObject [(''defaultLevel'', JString ''level1'')]),
                    (''Anthropic'', JObject [(''defaultLevel'', JString ''level3''),
                                              (''minLevel'', JString ''level2'')])])]))
        (FileText ''{}''))) ''claude'' ''defaultLevel'' = Some (JString ''level2'')"
  by code_simp

text \<open>
  The key \<open>__proto__\<close> in the provider settings of the file sets the prototype of the
  normalized object, through which \<open>mergeProviderSettings\<close> finds the settings of claude.
\<close>

lemma loadSettings_prototype_example:
  "normalizeProviderSettings ascii_methods
      (JObject [(''__proto__'', JObject [(''claude'', JObject [(''minLevel'', JString ''level3'')])])])
     = Prototyped (JObject [(''claude'', JObject [(''minLevel'', JString ''level3'')])]) []
   \<and> provider_setting
     (projr (loadSettings ascii_methods
        (\<lambda>t. Some (JObject [(''providerSettings'',
           JObject [(''__proto__'', JObject [(''claude'', JObject [(''minLevel'', JString ''level3'')])])])]))
        (FileText ''{}''))) ''claude'' ''minLevel'' = Some (JString ''level3'')
   \<and> provider_setting
     (projr (loadSettings ascii_methods
        (\<lambda>t. Some (JObject [(''providerSettings'',
           JObject [(''__proto__'', JObject [(''claude'', JObject [(''minLevel'', JString ''level3'')])])])]))
        (FileText ''{}''))) ''claude'' ''defaultLevel'' = Some (JString ''level3'')"
  by code_simp

text \<open>
  Names of properties of \<open>Object.prototype\<close>: the provider \<open>Constructor\<close> is normalized
  to the function \<open>Object\<close>; and with a \<open>maxModel\<close> that is no legacy name, the levels
  \<open>valueOf\<close> and \<open>constructor\<close> give two functions as ranks, which are compared by their
  texts, so that the bounds are reset.
\<close>

lemma loadSettings_inherited_example:
  "map_of (projr (loadSettings ascii_methods
        (\<lambda>t. Some (JObject [(''defaultProvider'', JString ''Constructor'')])) (FileText ''{}'')))
      ''defaultProvider'' = Some (Inherited ''constructor'')
   \<and> provider_setting
     (projr (loadSettings ascii_methods
        (\<lambda>t. Some (JObject [(''maxModel'', JString ''best''), (''providerSettings'',
           JObject [(''claude'', JObject [(''minLevel'', JString ''valueOf''),
                                           (''maxLevel'', JString ''constructor'')])])]))
        (FileText ''{}''))) ''claude'' ''minLevel'' = Some (JString ''level1'')
   \<and> provider_setting
     (projr (loadSettings ascii_methods
        (\<lambda>t. Some (JObject [(''maxModel'', JString ''best''), (''providerSettings'',
           JObject [(''claude'', JObject [(''minLevel'', JString ''valueOf''),
                                           (''maxLevel'', JString ''constructor'')])])]))
        (FileText ''{}''))) ''claude'' ''maxLevel'' = Some (JString ''level3'')"
  by code_simp

text \<open>
  An array converts to a property name by joining its elements: the \<open>minLevel\<close>
  \<open>['level3']\<close> ranks as \<open>level3\<close>, and the default level is set to that array. A file
  that holds a JSON string is spread into its characters over the defaults.
\<close>

lemma loadSettings_conversion_example:
  "provider_setting
     (projr (loadSettings ascii_methods
        (\<lambda>t. Some (JObject [(''providerSettings'',
           JObject [(''claude'', JObject [(''minLevel'', JArray [JString ''level3''])])])]))
        (FileText ''{}''))) ''claude'' ''defaultLevel'' = Some (JArray [JString ''level3''])
   \<and> map_of (projr (loadSettings ascii_methods (\<lambda>t. Some (JString ''ab'')) (FileText ''{}'')))
        ''1'' = Some (Json (JString ''b''))
   \<and> map_of (projr (loadSettings ascii_methods (\<lambda>t. Some (JString ''ab'')) (FileText ''{}'')))
        ''logLevel'' = Some (Json (JString ''normal''))"
  by code_simp

end
